theory Spec2Isabelle
  imports Complex_Main "HOL-Library.Multiset"
begin

section \<open>Data model\<close>

text \<open>
  The converter is TypeScript. Its numbers are modelled as real numbers with exact
  arithmetic: every comparison, sum and product below is the mathematical one, so the
  thresholds of the heuristics (5, 10, 30, 0.95, 2.5, 0.6, ...) are met exactly where the
  source meets them up to the rounding of double arithmetic. NaN and the infinities are
  not modelled. Strings are byte strings.
  Optional fields (\<^verbatim>\<open>field?: T\<close>) are \<open>T option\<close>.
\<close>

subsection \<open>types/figma.ts\<close>

record BoundingBox =
  bb_x :: real
  bb_y :: real
  bb_width :: real
  bb_height :: real

datatype NodeType =
  DOCUMENT | CANVAS | FRAME | GROUP | RECTANGLE | ELLIPSE | TEXT | VECTOR | INSTANCE | COMPONENT

text \<open>Of a fill, stroke or effect only \<^verbatim>\<open>visible\<close> is read by the code modelled here.\<close>

record Fill =
  fill_type :: string
  fill_visible :: "bool option"

record Stroke =
  stroke_type :: string
  stroke_visible :: "bool option"

record Effect =
  effect_type :: string
  effect_visible :: "bool option"

datatype CornerRadius = Radius real | Radii "real list"

record TextStyle =
  fontFamily :: string
  fontSize :: real
  fontWeight :: real

datatype LayoutMode = NONE | HORIZONTAL | VERTICAL

datatype PrimaryAxisAlign = P_MIN | P_CENTER | P_MAX | P_SPACE_BETWEEN

datatype CounterAxisAlign = C_MIN | C_CENTER | C_MAX

record Constraints =
  cn_horizontal :: string
  cn_vertical :: string

text \<open>
  \<^verbatim>\<open>interface FigmaNode\<close>: the scalar fields are the record \<open>FigmaProps\<close>, the node
  itself is the datatype that adds the optional list of children. \<open>componentId\<close> is
  the field the parser reads through \<^verbatim>\<open>(node as any).componentId\<close>.
\<close>

record FigmaProps =
  fn_id :: string
  fn_name :: string
  fn_type :: NodeType
  absoluteBoundingBox :: "BoundingBox option"
  fn_fills :: "Fill list option"
  fn_strokes :: "Stroke list option"
  fn_effects :: "Effect list option"
  fn_opacity :: "real option"
  fn_blendMode :: "string option"
  fn_cornerRadius :: "CornerRadius option"
  layoutMode :: "LayoutMode option"
  primaryAxisAlignItems :: "PrimaryAxisAlign option"
  counterAxisAlignItems :: "CounterAxisAlign option"
  paddingLeft :: "real option"
  paddingRight :: "real option"
  paddingTop :: "real option"
  paddingBottom :: "real option"
  itemSpacing :: "real option"
  fn_constraints :: "Constraints option"
  characters :: "string option"
  fn_style :: "TextStyle option"
  componentId :: "string option"

datatype FigmaNode = FigmaNode (props: FigmaProps) (children: "FigmaNode list option")

text \<open>\<^verbatim>\<open>c.absoluteBoundingBox!\<close>: the box of a child that passed the filter on its box.\<close>

definition box :: "FigmaNode \<Rightarrow> BoundingBox" where
  "box c = the (absoluteBoundingBox (props c))"

definition hasBox :: "FigmaNode \<Rightarrow> bool" where
  "hasBox c = (absoluteBoundingBox (props c) \<noteq> None)"

subsection \<open>types/internal.ts\<close>

datatype LayoutStrategy = Absolute | Flexbox | Grid | Static

datatype Arrangement = ArrVertical | ArrHorizontal | ArrComplex

record Spacing =
  sp_top :: real
  sp_right :: real
  sp_bottom :: real
  sp_left :: real

record Position =
  pos_x :: real
  pos_y :: real

datatype FlexDirection = Row | Column

record LayoutProperties =
  lp_strategy :: LayoutStrategy
  lp_position :: "Position option"
  lp_width :: "real option"
  lp_height :: "real option"
  lp_flexDirection :: "FlexDirection option"
  lp_gap :: "real option"
  lp_padding :: "Spacing option"
  lp_alignItems :: "string option"
  lp_justifyContent :: "string option"
  lp_constraints :: "Constraints option"

record StyleProperties =
  st_fills :: "Fill list"
  st_strokes :: "Stroke list"
  st_effects :: "Effect list"
  st_opacity :: real
  st_blendMode :: string
  st_cornerRadius :: "CornerRadius option"
  st_textStyle :: "TextStyle option"

text \<open>
  \<^verbatim>\<open>interface ParsedNode\<close> without its \<^verbatim>\<open>children\<close> array. The parser builds a tree
  of such nodes (\<open>ParsedTree\<close>); where the children arrays are mutated through shared
  references (containment regrouping) the nodes live in a store, see below.
\<close>

record ParsedNode =
  pn_id :: string
  pn_name :: string
  pn_type :: NodeType
  pn_bounds :: BoundingBox
  pn_styles :: StyleProperties
  pn_layout :: LayoutProperties
  pn_textContent :: "string option"
  pn_componentName :: "string option"
  pn_componentType :: "string option"

datatype ParsedTree = ParsedTree (node: ParsedNode) (subtrees: "ParsedTree list")

section \<open>JavaScript primitives\<close>

text \<open>\<^verbatim>\<open>Math.round\<close> rounds to the nearest integer, a tie towards plus infinity.\<close>

definition mathRound :: "real \<Rightarrow> real" where
  "mathRound v = of_int \<lfloor>v + 1 / 2\<rfloor>"

text \<open>\<^verbatim>\<open>Math.round(v * 100) / 100\<close>, the two-decimal rounding used throughout.\<close>

definition round2 :: "real \<Rightarrow> real" where
  "round2 v = mathRound (v * 100) / 100"

text \<open>A number is truthy when it is present and not zero; a string when it is present and not empty.\<close>

definition truthy :: "real option \<Rightarrow> bool" where
  "truthy v = (case v of None \<Rightarrow> False | Some r \<Rightarrow> r \<noteq> 0)"

definition truthyStr :: "string option \<Rightarrow> bool" where
  "truthyStr v = (case v of None \<Rightarrow> False | Some s \<Rightarrow> s \<noteq> [])"

text \<open>\<^verbatim>\<open>v || 0\<close> on an optional number.\<close>

definition orZero :: "real option \<Rightarrow> real" where
  "orZero v = (case v of None \<Rightarrow> 0 | Some r \<Rightarrow> r)"

text \<open>\<^verbatim>\<open>String.prototype.toLowerCase\<close> on the ASCII letters, and \<^verbatim>\<open>includes\<close> (\<open>strIncludes\<close>).\<close>

definition toLowerChar :: "char \<Rightarrow> char" where
  "toLowerChar c =
     (case map_of (zip ''ABCDEFGHIJKLMNOPQRSTUVWXYZ'' ''abcdefghijklmnopqrstuvwxyz'') c of
        Some d \<Rightarrow> d
      | None \<Rightarrow> c)"

definition toLowerCase :: "string \<Rightarrow> string" where
  "toLowerCase s = map toLowerChar s"

fun startsWith :: "string \<Rightarrow> string \<Rightarrow> bool" where
  "startsWith s [] = True"
| "startsWith [] (c # n) = False"
| "startsWith (a # s) (c # n) = (a = c \<and> startsWith s n)"

fun strIncludes :: "string \<Rightarrow> string \<Rightarrow> bool" where
  "strIncludes [] n = (n = [])"
| "strIncludes (a # s) n = (startsWith (a # s) n \<or> strIncludes s n)"

section \<open>Parser (parser/Parser.ts)\<close>

subsection \<open>detectChildArrangement\<close>

text \<open>
  \<^verbatim>\<open>Array.prototype.sort\<close> with the comparator \<^verbatim>\<open>a.y - b.y\<close> is a stable sort by
  the key \<open>y\<close>; \<open>sort_key\<close> is the stable insertion sort of the list library.
  The two scanning loops of \<^verbatim>\<open>detectChildArrangement\<close> stop at the first pair that
  overlaps by more than 5.
\<close>

fun scanVertical :: "FigmaNode list \<Rightarrow> bool" where
  "scanVertical (current # next # rest) =
     (if bb_y (box next) < bb_y (box current) + bb_height (box current) - 5 then False
      else scanVertical (next # rest))"
| "scanVertical _ = True"

fun scanHorizontal :: "FigmaNode list \<Rightarrow> bool" where
  "scanHorizontal (current # next # rest) =
     (if bb_x (box next) < bb_x (box current) + bb_width (box current) - 5 then False
      else scanHorizontal (next # rest))"
| "scanHorizontal _ = True"

definition sortByY :: "FigmaNode list \<Rightarrow> FigmaNode list" where
  "sortByY cs = sort_key (\<lambda>c. bb_y (box c)) cs"

definition sortByX :: "FigmaNode list \<Rightarrow> FigmaNode list" where
  "sortByX cs = sort_key (\<lambda>c. bb_x (box c)) cs"

definition detectChildArrangement :: "FigmaNode list \<Rightarrow> Arrangement" where
  "detectChildArrangement cs =
     (let childrenWithBounds = filter hasBox cs in
      if length childrenWithBounds < 2 then ArrComplex
      else if scanVertical (sortByY childrenWithBounds) then ArrVertical
      else if scanHorizontal (sortByX childrenWithBounds) then ArrHorizontal
      else ArrComplex)"

subsection \<open>determineLayoutStrategy\<close>

text \<open>\<^verbatim>\<open>node.layoutMode && node.layoutMode !== 'NONE'\<close>\<close>

definition declaresAutoLayout :: "FigmaNode \<Rightarrow> bool" where
  "declaresAutoLayout n =
     (case layoutMode (props n) of None \<Rightarrow> False | Some m \<Rightarrow> m \<noteq> NONE)"

definition determineLayoutStrategy :: "FigmaNode \<Rightarrow> LayoutStrategy" where
  "determineLayoutStrategy n =
     (if declaresAutoLayout n then Flexbox
      else
        case children n of
          None \<Rightarrow> Static
        | Some cs \<Rightarrow>
            if length cs > 0 \<and> absoluteBoundingBox (props n) \<noteq> None then
              (let arrangement = detectChildArrangement cs in
               if arrangement = ArrVertical \<or> arrangement = ArrHorizontal then Flexbox
               else Absolute)
            else Static)"

subsection \<open>calculateChildGaps\<close>

text \<open>The loops that collect the non-negative gaps between consecutive sorted children.\<close>

fun gapsVertical :: "FigmaNode list \<Rightarrow> real list" where
  "gapsVertical (current # next # rest) =
     (let gap = bb_y (box next) - (bb_y (box current) + bb_height (box current)) in
      (if gap \<ge> 0 then [gap] else []) @ gapsVertical (next # rest))"
| "gapsVertical _ = []"

fun gapsHorizontal :: "FigmaNode list \<Rightarrow> real list" where
  "gapsHorizontal (current # next # rest) =
     (let gap = bb_x (box next) - (bb_x (box current) + bb_width (box current)) in
      (if gap \<ge> 0 then [gap] else []) @ gapsHorizontal (next # rest))"
| "gapsHorizontal _ = []"

definition collectGaps :: "FigmaNode list \<Rightarrow> Arrangement \<Rightarrow> real list" where
  "collectGaps cs arrangement =
     (let childrenWithBounds = filter hasBox cs in
      case arrangement of
        ArrVertical \<Rightarrow> gapsVertical (sortByY childrenWithBounds)
      | ArrHorizontal \<Rightarrow> gapsHorizontal (sortByX childrenWithBounds)
      | ArrComplex \<Rightarrow> [])"

text \<open>The function returns \<^verbatim>\<open>{ averageGap }\<close>; the model returns the number.\<close>

definition calculateChildGaps :: "FigmaNode list \<Rightarrow> Arrangement \<Rightarrow> real" where
  "calculateChildGaps cs arrangement =
     (if length cs < 2 then 0
      else
        let gaps = collectGaps cs arrangement in
        if length gaps = 0 then 0
        else if length gaps = 1 then round2 (gaps ! 0)
        else
          let sortedGaps = sort gaps;
              median = sortedGaps ! (length sortedGaps div 2);
              filteredGaps = filter (\<lambda>gap. gap \<le> median * (5 / 2)) sortedGaps;
              gapsToUse =
                (if real (length filteredGaps) \<ge> real (length gaps) * (1 / 2) then filteredGaps
                 else gaps);
              averageGap = foldl (\<lambda>sum gap. sum + gap) 0 gapsToUse / real (length gapsToUse);
              preciseGap = round2 averageGap
          in if preciseGap < 0 then 0
             else if preciseGap > 200 then 24
             else preciseGap)"

subsection \<open>calculatePadding\<close>

text \<open>
  The running minimum and maximum start at plus and minus infinity; \<open>None\<close> stands for
  the infinite start value, which the first child replaces.
\<close>

definition minAcc :: "real option \<Rightarrow> real \<Rightarrow> real option" where
  "minAcc acc v = (case acc of None \<Rightarrow> Some v | Some m \<Rightarrow> Some (min m v))"

definition maxAcc :: "real option \<Rightarrow> real \<Rightarrow> real option" where
  "maxAcc acc v = (case acc of None \<Rightarrow> Some v | Some m \<Rightarrow> Some (max m v))"

definition calculatePadding :: "FigmaNode \<Rightarrow> FigmaNode list \<Rightarrow> Spacing option" where
  "calculatePadding parent cs =
     (case absoluteBoundingBox (props parent) of
        None \<Rightarrow> None
      | Some parentBounds \<Rightarrow>
          if length cs = 0 then None
          else
            let childrenWithBounds = filter hasBox cs in
            if length childrenWithBounds = 0 then None
            else
              let minX = the (foldl (\<lambda>m c. minAcc m (bb_x (box c))) None childrenWithBounds);
                  minY = the (foldl (\<lambda>m c. minAcc m (bb_y (box c))) None childrenWithBounds);
                  maxX = the (foldl (\<lambda>m c. maxAcc m (bb_x (box c) + bb_width (box c))) None
                                childrenWithBounds);
                  maxY = the (foldl (\<lambda>m c. maxAcc m (bb_y (box c) + bb_height (box c))) None
                                childrenWithBounds)
              in Some \<lparr>
                   sp_top = max 0 (round2 (minY - bb_y parentBounds)),
                   sp_right = max 0 (round2 ((bb_x parentBounds + bb_width parentBounds) - maxX)),
                   sp_bottom = max 0 (round2 ((bb_y parentBounds + bb_height parentBounds) - maxY)),
                   sp_left = max 0 (round2 (minX - bb_x parentBounds)) \<rparr>)"

subsection \<open>detectAlignment\<close>

record Alignment =
  al_justifyContent :: "string option"
  al_alignItems :: "string option"

text \<open>
  The counting loops. A child is counted once: as centred when its centre is less than
  2 from the parent's centre, else as start-aligned when its near edge is less than 5 from
  the parent's, else as end-aligned when its far edge is less than 5 from the parent's.
  The counters are (centered, start, end).
\<close>

definition voteX :: "BoundingBox \<Rightarrow> nat \<times> nat \<times> nat \<Rightarrow> FigmaNode \<Rightarrow> nat \<times> nat \<times> nat" where
  "voteX parentBounds counts child =
     (let (centeredCount, leftAlignedCount, rightAlignedCount) = counts;
          parentCenterX = bb_x parentBounds + bb_width parentBounds / 2;
          parentLeft = bb_x parentBounds;
          parentRight = bb_x parentBounds + bb_width parentBounds;
          bounds = box child;
          childCenterX = bb_x bounds + bb_width bounds / 2;
          childLeft = bb_x bounds;
          childRight = bb_x bounds + bb_width bounds
      in if abs (childCenterX - parentCenterX) < 2 then
           (centeredCount + 1, leftAlignedCount, rightAlignedCount)
         else if abs (childLeft - parentLeft) < 5 then
           (centeredCount, leftAlignedCount + 1, rightAlignedCount)
         else if abs (childRight - parentRight) < 5 then
           (centeredCount, leftAlignedCount, rightAlignedCount + 1)
         else (centeredCount, leftAlignedCount, rightAlignedCount))"

definition voteY :: "BoundingBox \<Rightarrow> nat \<times> nat \<times> nat \<Rightarrow> FigmaNode \<Rightarrow> nat \<times> nat \<times> nat" where
  "voteY parentBounds counts child =
     (let (centeredCount, topAlignedCount, bottomAlignedCount) = counts;
          parentCenterY = bb_y parentBounds + bb_height parentBounds / 2;
          parentTop = bb_y parentBounds;
          parentBottom = bb_y parentBounds + bb_height parentBounds;
          bounds = box child;
          childCenterY = bb_y bounds + bb_height bounds / 2;
          childTop = bb_y bounds;
          childBottom = bb_y bounds + bb_height bounds
      in if abs (childCenterY - parentCenterY) < 2 then
           (centeredCount + 1, topAlignedCount, bottomAlignedCount)
         else if abs (childTop - parentTop) < 5 then
           (centeredCount, topAlignedCount + 1, bottomAlignedCount)
         else if abs (childBottom - parentBottom) < 5 then
           (centeredCount, topAlignedCount, bottomAlignedCount + 1)
         else (centeredCount, topAlignedCount, bottomAlignedCount))"

text \<open>
  The cascade that turns the counters into \<^verbatim>\<open>alignItems\<close>. The source writes it twice,
  once per arrangement, with the same shape; \<open>allFull\<close> is the result of the
  \<^verbatim>\<open>every\<close> test (all children within 10 of the parent's cross-axis size), which the
  source evaluates in the last branch only.
\<close>

definition alignItemsCascade :: "nat \<Rightarrow> nat \<Rightarrow> nat \<Rightarrow> nat \<Rightarrow> bool \<Rightarrow> string" where
  "alignItemsCascade totalCount centeredCount startCount endCount allFull =
     (let centerThreshold = (if totalCount \<ge> 3 then 6 / 10 else 5 / 10 :: real) in
      if real centeredCount \<ge> real totalCount * centerThreshold then ''center''
      else if real startCount \<ge> real totalCount * centerThreshold then ''flex-start''
      else if real endCount \<ge> real totalCount * centerThreshold then ''flex-end''
      else if centeredCount > startCount \<and> centeredCount > endCount then ''center''
      else if startCount > endCount then ''flex-start''
      else if endCount > startCount then ''flex-end''
      else if allFull then ''stretch''
      else ''flex-start'')"

definition justifyVertical :: "BoundingBox \<Rightarrow> FigmaNode list \<Rightarrow> string" where
  "justifyVertical parentBounds childrenWithBounds =
     (let sortedByY = sortByY childrenWithBounds;
          firstChild = box (hd sortedByY);
          lastChild = box (last sortedByY);
          topGap = bb_y firstChild - bb_y parentBounds;
          bottomGap = (bb_y parentBounds + bb_height parentBounds)
                      - (bb_y lastChild + bb_height lastChild);
          gapDifference = abs (topGap - bottomGap);
          totalGap = topGap + bottomGap;
          contentHeight = (bb_y lastChild + bb_height lastChild) - bb_y firstChild;
          parentHeight = bb_height parentBounds
      in if contentHeight > parentHeight * (8 / 10) then ''flex-start''
         else if totalGap > 0 \<and> gapDifference < totalGap * (15 / 100) then ''center''
         else if topGap < 40 then ''flex-start''
         else if bottomGap < 40 then ''flex-end''
         else if topGap < bottomGap * (7 / 10) then ''flex-start''
         else if bottomGap < topGap * (7 / 10) then ''flex-end''
         else ''flex-start'')"

definition justifyHorizontal :: "BoundingBox \<Rightarrow> FigmaNode list \<Rightarrow> string option" where
  "justifyHorizontal parentBounds childrenWithBounds =
     (let sortedByX = sortByX childrenWithBounds;
          firstChild = box (hd sortedByX);
          lastChild = box (last sortedByX);
          leftGap = bb_x firstChild - bb_x parentBounds;
          rightGap = (bb_x parentBounds + bb_width parentBounds)
                     - (bb_x lastChild + bb_width lastChild)
      in if abs (leftGap - rightGap) < 20 then Some ''center''
         else if leftGap < 20 then Some ''flex-start''
         else if rightGap < 20 then Some ''flex-end''
         else if length childrenWithBounds \<ge> 2 then
           (let totalChildWidth = foldl (\<lambda>sum c. sum + bb_width (box c)) 0 childrenWithBounds;
                totalGapSpace = bb_width parentBounds - totalChildWidth;
                averageGap = totalGapSpace / real (length childrenWithBounds + 1)
            in if abs (leftGap - averageGap) < 10 \<and> abs (rightGap - averageGap) < 10
               then Some ''space-between''
               else None)
         else None)"

definition detectAlignment :: "FigmaNode \<Rightarrow> FigmaNode list \<Rightarrow> Arrangement \<Rightarrow> Alignment" where
  "detectAlignment parent cs arrangement =
     (case absoluteBoundingBox (props parent) of
        None \<Rightarrow> \<lparr> al_justifyContent = None, al_alignItems = None \<rparr>
      | Some parentBounds \<Rightarrow>
          if length cs = 0 then \<lparr> al_justifyContent = None, al_alignItems = None \<rparr>
          else
            let childrenWithBounds = filter hasBox cs in
            if length childrenWithBounds = 0 then
              \<lparr> al_justifyContent = None, al_alignItems = None \<rparr>
            else
              (case arrangement of
                ArrVertical \<Rightarrow>
                  (let (centeredCount, leftAlignedCount, rightAlignedCount) =
                         foldl (voteX parentBounds) (0, 0, 0) childrenWithBounds;
                       totalCount = length childrenWithBounds;
                       allFullWidth =
                         list_all (\<lambda>c. abs (bb_width (box c) - bb_width parentBounds) < 10)
                           childrenWithBounds
                   in \<lparr> al_justifyContent = Some (justifyVertical parentBounds childrenWithBounds),
                        al_alignItems =
                          Some (alignItemsCascade totalCount centeredCount leftAlignedCount
                                  rightAlignedCount allFullWidth) \<rparr>)
              | ArrHorizontal \<Rightarrow>
                  (let (centeredCount, topAlignedCount, bottomAlignedCount) =
                         foldl (voteY parentBounds) (0, 0, 0) childrenWithBounds;
                       totalCount = length childrenWithBounds;
                       allFullHeight =
                         list_all (\<lambda>c. abs (bb_height (box c) - bb_height parentBounds) < 10)
                           childrenWithBounds
                   in \<lparr> al_justifyContent = justifyHorizontal parentBounds childrenWithBounds,
                        al_alignItems =
                          Some (alignItemsCascade totalCount centeredCount topAlignedCount
                                  bottomAlignedCount allFullHeight) \<rparr>)
              | ArrComplex \<Rightarrow> \<lparr> al_justifyContent = None, al_alignItems = None \<rparr>))"

subsection \<open>extractLayout\<close>

definition mapPrimaryAxisAlignment :: "PrimaryAxisAlign \<Rightarrow> string" where
  "mapPrimaryAxisAlignment a =
     (case a of P_MIN \<Rightarrow> ''flex-start'' | P_CENTER \<Rightarrow> ''center'' | P_MAX \<Rightarrow> ''flex-end''
      | P_SPACE_BETWEEN \<Rightarrow> ''space-between'')"

definition mapCounterAxisAlignment :: "CounterAxisAlign \<Rightarrow> string" where
  "mapCounterAxisAlignment a =
     (case a of C_MIN \<Rightarrow> ''flex-start'' | C_CENTER \<Rightarrow> ''center'' | C_MAX \<Rightarrow> ''flex-end'')"

text \<open>The three stages of \<^verbatim>\<open>extractLayout\<close>: position and size, flex properties, constraints.\<close>

definition layoutPositionSize :: "FigmaNode \<Rightarrow> LayoutProperties" where
  "layoutPositionSize n =
     (let strategy = determineLayoutStrategy n in
      case absoluteBoundingBox (props n) of
        None \<Rightarrow>
          \<lparr> lp_strategy = strategy, lp_position = None, lp_width = None, lp_height = None,
            lp_flexDirection = None, lp_gap = None, lp_padding = None, lp_alignItems = None,
            lp_justifyContent = None, lp_constraints = None \<rparr>
      | Some b \<Rightarrow>
          \<lparr> lp_strategy = strategy, lp_position = Some \<lparr> pos_x = bb_x b, pos_y = bb_y b \<rparr>,
            lp_width = Some (bb_width b), lp_height = Some (bb_height b),
            lp_flexDirection = None, lp_gap = None, lp_padding = None, lp_alignItems = None,
            lp_justifyContent = None, lp_constraints = None \<rparr>)"

definition layoutDeclared :: "FigmaNode \<Rightarrow> LayoutProperties \<Rightarrow> LayoutProperties" where
  "layoutDeclared n layout =
     (let p = props n in
      layout\<lparr>
        lp_flexDirection := Some (if layoutMode p = Some HORIZONTAL then Row else Column),
        lp_gap := Some (orZero (itemSpacing p)),
        lp_padding := Some \<lparr> sp_top = orZero (paddingTop p), sp_right = orZero (paddingRight p),
                              sp_bottom = orZero (paddingBottom p), sp_left = orZero (paddingLeft p) \<rparr>,
        lp_justifyContent :=
          (case primaryAxisAlignItems p of
             None \<Rightarrow> lp_justifyContent layout
           | Some a \<Rightarrow> Some (mapPrimaryAxisAlignment a)),
        lp_alignItems :=
          (case counterAxisAlignItems p of
             None \<Rightarrow> lp_alignItems layout
           | Some a \<Rightarrow> Some (mapCounterAxisAlignment a)) \<rparr>)"

definition layoutDetected :: "FigmaNode \<Rightarrow> FigmaNode list \<Rightarrow> LayoutProperties \<Rightarrow> LayoutProperties" where
  "layoutDetected n cs layout =
     (let arrangement = detectChildArrangement cs;
          averageGap = calculateChildGaps cs arrangement;
          padding = calculatePadding n cs;
          alignment = detectAlignment n cs arrangement
      in layout\<lparr>
           lp_flexDirection := Some (if arrangement = ArrHorizontal then Row else Column),
           lp_gap := (if averageGap > 1 / 2 then Some averageGap else lp_gap layout),
           lp_padding := (case padding of None \<Rightarrow> lp_padding layout | Some s \<Rightarrow> Some s),
           lp_alignItems :=
             (if truthyStr (al_alignItems alignment) then al_alignItems alignment
              else if arrangement = ArrVertical then Some ''center''
              else lp_alignItems layout),
           lp_justifyContent :=
             (if truthyStr (al_justifyContent alignment) then al_justifyContent alignment
              else lp_justifyContent layout) \<rparr>)"

definition extractLayout :: "FigmaNode \<Rightarrow> LayoutProperties" where
  "extractLayout n =
     (let layout0 = layoutPositionSize n;
          layout1 =
            (if declaresAutoLayout n then layoutDeclared n layout0
             else
               case children n of
                 None \<Rightarrow> layout0
               | Some cs \<Rightarrow>
                   if lp_strategy layout0 = Flexbox \<and> length cs > 1 then layoutDetected n cs layout0
                   else layout0)
      in case fn_constraints (props n) of
           None \<Rightarrow> layout1
         | Some c \<Rightarrow> layout1\<lparr> lp_constraints := Some c \<rparr>)"

subsection \<open>extractStyles, the defaults, detectComponentType\<close>

definition extractStyles :: "FigmaProps \<Rightarrow> StyleProperties" where
  "extractStyles p =
     \<lparr> st_fills = (case fn_fills p of None \<Rightarrow> []
                   | Some fs \<Rightarrow> filter (\<lambda>f. fill_visible f \<noteq> Some False) fs),
       st_strokes = (case fn_strokes p of None \<Rightarrow> []
                     | Some ss \<Rightarrow> filter (\<lambda>s. stroke_visible s \<noteq> Some False) ss),
       st_effects = (case fn_effects p of None \<Rightarrow> []
                     | Some es \<Rightarrow> filter (\<lambda>e. effect_visible e \<noteq> Some False) es),
       st_opacity = (case fn_opacity p of None \<Rightarrow> 1 | Some v \<Rightarrow> v),
       st_blendMode = (if truthyStr (fn_blendMode p) then the (fn_blendMode p) else ''NORMAL''),
       st_cornerRadius = fn_cornerRadius p,
       st_textStyle = fn_style p \<rparr>"

definition getDefaultStyles :: StyleProperties where
  "getDefaultStyles =
     \<lparr> st_fills = [], st_strokes = [], st_effects = [], st_opacity = 1,
       st_blendMode = ''NORMAL'', st_cornerRadius = None, st_textStyle = None \<rparr>"

definition getDefaultLayout :: LayoutProperties where
  "getDefaultLayout =
     \<lparr> lp_strategy = Static, lp_position = None, lp_width = None, lp_height = None,
       lp_flexDirection = None, lp_gap = None, lp_padding = None, lp_alignItems = None,
       lp_justifyContent = None, lp_constraints = None \<rparr>"

text \<open>
  An exception thrown inside \<^verbatim>\<open>parseNode\<close>. The table of components is
  \<^verbatim>\<open>Record<string, any>\<close>: nothing makes an entry carry a \<^verbatim>\<open>name\<close> that is a string, and
  \<^verbatim>\<open>detectComponentType\<close> calls \<^verbatim>\<open>name.toLowerCase()\<close>, which throws a TypeError on
  anything else. \<open>cmp_name = None\<close> stands for such an entry. The text of the error is
  the engine's; the model keeps one fixed text.
\<close>

datatype JsError = TypeError string

definition errorText :: "JsError \<Rightarrow> string" where
  "errorText e = (case e of TypeError m \<Rightarrow> ''TypeError: '' @ m)"

record ComponentEntry =
  cmp_name :: "string option"

type_synonym Components = "string \<Rightarrow> ComponentEntry option"

definition detectComponentType :: "string option \<Rightarrow> JsError + string option" where
  "detectComponentType name =
     (case name of
        None \<Rightarrow> Inl (TypeError ''name.toLowerCase is not a function'')
      | Some s \<Rightarrow>
          let lowerName = toLowerCase s in
          if strIncludes lowerName ''button'' \<or> strIncludes lowerName ''btn'' then Inr (Some ''button'')
          else if strIncludes lowerName ''input'' \<or> strIncludes lowerName ''textfield''
                  \<or> strIncludes lowerName ''text field'' then Inr (Some ''input'')
          else if strIncludes lowerName ''card'' then Inr (Some ''card'')
          else if strIncludes lowerName ''modal'' \<or> strIncludes lowerName ''dialog'' then Inr (Some ''modal'')
          else if strIncludes lowerName ''nav'' \<or> strIncludes lowerName ''menu'' then Inr (Some ''nav'')
          else Inr None)"

subsection \<open>parseNode\<close>

text \<open>
  The parser object: its list of warnings and the table of components.
  \<open>parseFields\<close> is the \<^verbatim>\<open>try\<close> block up to the recursion into the children: the
  object literal, the component lookup and the text content. \<open>parseNode\<close> adds the
  recursion and the \<^verbatim>\<open>catch\<close> block.
\<close>

record Parser =
  warnings :: "string list"
  components :: Components

definition zeroBounds :: BoundingBox where
  "zeroBounds = \<lparr> bb_x = 0, bb_y = 0, bb_width = 0, bb_height = 0 \<rparr>"

definition parseFields :: "Components \<Rightarrow> FigmaNode \<Rightarrow> JsError + ParsedNode" where
  "parseFields comps n =
     (let p = props n;
          parsedNode =
            \<lparr> pn_id = fn_id p, pn_name = fn_name p, pn_type = fn_type p,
              pn_bounds = (case absoluteBoundingBox p of None \<Rightarrow> zeroBounds | Some b \<Rightarrow> b),
              pn_styles = extractStyles p,
              pn_layout = extractLayout n,
              pn_textContent = None, pn_componentName = None, pn_componentType = None \<rparr>;
          withComponent =
            (if fn_type p = INSTANCE \<and> truthyStr (componentId p) then
               (case comps (the (componentId p)) of
                  None \<Rightarrow> Inr parsedNode
                | Some component \<Rightarrow>
                    (case detectComponentType (cmp_name component) of
                       Inl e \<Rightarrow> Inl e
                     | Inr t \<Rightarrow>
                         Inr (parsedNode\<lparr> pn_componentName := cmp_name component,
                                           pn_componentType := t \<rparr>)))
             else Inr parsedNode)
      in case withComponent of
           Inl e \<Rightarrow> Inl e
         | Inr pn \<Rightarrow>
             Inr (if fn_type p = TEXT \<and> truthyStr (characters p)
                  then pn\<lparr> pn_textContent := characters p \<rparr>
                  else pn))"

definition errorMsg :: "FigmaProps \<Rightarrow> JsError \<Rightarrow> string" where
  "errorMsg p e = ''Error parsing node '' @ fn_id p @ '' ('' @ fn_name p @ ''): '' @ errorText e"

definition minimalNode :: "FigmaProps \<Rightarrow> ParsedNode" where
  "minimalNode p =
     \<lparr> pn_id = fn_id p, pn_name = fn_name p, pn_type = fn_type p,
       pn_bounds = zeroBounds,
       pn_styles = getDefaultStyles,
       pn_layout = getDefaultLayout,
       pn_textContent = None, pn_componentName = None, pn_componentType = None \<rparr>"

fun parseNode :: "FigmaNode \<Rightarrow> Parser \<Rightarrow> ParsedTree \<times> Parser"
  and parseChildren :: "FigmaNode list \<Rightarrow> Parser \<Rightarrow> ParsedTree list \<times> Parser" where
  "parseNode (FigmaNode p kids) ps =
     (case parseFields (components ps) (FigmaNode p kids) of
        Inl e \<Rightarrow>
          (ParsedTree (minimalNode p) [], ps\<lparr> warnings := warnings ps @ [errorMsg p e] \<rparr>)
      | Inr parsedNode \<Rightarrow>
          (case kids of
             None \<Rightarrow> (ParsedTree parsedNode [], ps)
           | Some cs \<Rightarrow>
               (let (ts, ps') = parseChildren cs ps in (ParsedTree parsedNode ts, ps'))))"
| "parseChildren [] ps = ([], ps)"
| "parseChildren (c # cs) ps =
     (let (t, ps1) = parseNode c ps;
          (ts, ps2) = parseChildren cs ps1
      in (t # ts, ps2))"

definition getWarnings :: "Parser \<Rightarrow> string list" where
  "getWarnings ps = warnings ps"

subsection \<open>isVisuallyContained\<close>

definition isVisuallyContained :: "ParsedNode \<Rightarrow> ParsedNode \<Rightarrow> bool" where
  "isVisuallyContained child parent =
     (let childBounds = pn_bounds child;
          parentBounds = pn_bounds parent;
          isDecorativeLine = (bb_height childBounds < 10 \<and> bb_width childBounds > 20);
          isDecorativeContainer =
            (bb_height childBounds < 30 \<and> strIncludes (toLowerCase (pn_name child)) ''indicator'');
          tolerance = (if isDecorativeLine \<or> isDecorativeContainer then 30 else 10 :: real);
          isInsideX =
            (bb_x childBounds \<ge> bb_x parentBounds - tolerance \<and>
             bb_x childBounds + bb_width childBounds
               \<le> bb_x parentBounds + bb_width parentBounds + tolerance);
          isInsideY =
            (bb_y childBounds \<ge> bb_y parentBounds - tolerance \<and>
             bb_y childBounds + bb_height childBounds
               \<le> bb_y parentBounds + bb_height parentBounds + tolerance);
          hasBackground = (length (st_fills (pn_styles parent)) > 0);
          isSmaller =
            (bb_width childBounds < bb_width parentBounds * (95 / 100) \<and>
             bb_height childBounds < bb_height parentBounds * (95 / 100))
      in if (isDecorativeLine \<or> isDecorativeContainer) \<and> isInsideX \<and> isInsideY then True
         else isInsideX \<and> isInsideY \<and> hasBackground \<and> isSmaller)"

subsection \<open>regroupByVisualContainment\<close>

text \<open>
  \<^verbatim>\<open>regroupByVisualContainment\<close> mutates the tree in place: a child is pushed onto the
  \<^verbatim>\<open>children\<close> array of a sibling, by reference, and that sibling may itself have been
  pushed, or be pushed later, onto another array. The nodes therefore live in a store:
  an address stands for an object, a cell holds the node's fields and its array of
  children as addresses.

  The model reads \<^verbatim>\<open>node.children\<close> once per loop. In the source the arrays the loops
  write to are those of the node's children, so the array being traversed changes only
  if the node is among its own descendants, which no tree built by \<^verbatim>\<open>parseNode\<close> has.

  The recursion of the source follows the children arrays in the store and ends because
  the store holds a tree; the model carries fuel, and \<open>None\<close> is a run that needs more
  than the fuel given.
\<close>

type_synonym addr = nat

record Cell =
  cell_node :: ParsedNode
  cell_children :: "addr list"

type_synonym Store = "addr \<Rightarrow> Cell"

text \<open>\<^verbatim>\<open>potentialParent.children.push(child)\<close>\<close>

definition pushChild :: "Store \<Rightarrow> addr \<Rightarrow> addr \<Rightarrow> Store" where
  "pushChild h potentialParent child =
     h(potentialParent := (h potentialParent)
         \<lparr> cell_children := cell_children (h potentialParent) @ [child] \<rparr>)"

text \<open>The inner loop: the first index \<open>j \<noteq> i\<close> whose node visually contains child \<open>i\<close>.\<close>

definition firstContainer :: "Store \<Rightarrow> addr list \<Rightarrow> nat \<Rightarrow> nat option" where
  "firstContainer h cs i =
     find (\<lambda>j. j \<noteq> i \<and> isVisuallyContained (cell_node (h (cs ! i))) (cell_node (h (cs ! j))))
       [0..<length cs]"

text \<open>One round of the outer loop, on the store and the list \<^verbatim>\<open>remainingChildren\<close>.\<close>

definition regroupStep :: "addr list \<Rightarrow> Store \<times> addr list \<Rightarrow> nat \<Rightarrow> Store \<times> addr list" where
  "regroupStep cs acc i =
     (let (h, remainingChildren) = acc in
      case firstContainer h cs i of
        Some j \<Rightarrow> (pushChild h (cs ! j) (cs ! i), remainingChildren)
      | None \<Rightarrow> (h, remainingChildren @ [cs ! i]))"

text \<open>The second half of the function: the two loops and the final assignment.\<close>

definition regroupLevel :: "Store \<Rightarrow> addr \<Rightarrow> Store" where
  "regroupLevel h a =
     (let cs = cell_children (h a);
          (h', remainingChildren) = foldl (regroupStep cs) (h, []) [0..<length cs]
      in h'(a := (h' a)\<lparr> cell_children := remainingChildren \<rparr>))"

fun regroupByVisualContainment :: "nat \<Rightarrow> Store \<Rightarrow> addr \<Rightarrow> Store option"
  and regroupChildren :: "nat \<Rightarrow> Store \<Rightarrow> addr list \<Rightarrow> Store option" where
  "regroupByVisualContainment 0 h a = None"
| "regroupByVisualContainment (Suc fuel) h a =
     (if length (cell_children (h a)) = 0 then Some h
      else
        case regroupChildren fuel h (cell_children (h a)) of
          None \<Rightarrow> None
        | Some h' \<Rightarrow> Some (regroupLevel h' a))"
| "regroupChildren fuel h [] = Some h"
| "regroupChildren fuel h (child # rest) =
     (case regroupByVisualContainment fuel h child of
        None \<Rightarrow> None
      | Some h' \<Rightarrow> regroupChildren fuel h' rest)"

section \<open>LayoutEngine (transformer/LayoutEngine.ts)\<close>

text \<open>
  \<^verbatim>\<open>CSSProperties\<close> is a dictionary from property names to values. The values the
  engine writes are template strings; the model keeps their structure instead of the
  decimal text of the numbers: \<open>Px v\<close> is \<^verbatim>\<open>`${v}px`\<close>, \<open>PxList vs\<close> is the
  space-separated list of such lengths, \<open>Lit s\<close> is the literal text \<open>s\<close>.
  \<^verbatim>\<open>delete css.k\<close> removes the key.
\<close>

datatype CssValue = Lit string | Px real | PxList "real list"

type_synonym CSSProperties = "string \<Rightarrow> CssValue option"

definition cssTruthy :: "CssValue option \<Rightarrow> bool" where
  "cssTruthy v = (case v of None \<Rightarrow> False | Some (Lit s) \<Rightarrow> s \<noteq> [] | Some _ \<Rightarrow> True)"

definition applyAbsoluteLayout ::
  "CSSProperties \<Rightarrow> LayoutProperties \<Rightarrow> ParsedNode \<Rightarrow> ParsedNode option \<Rightarrow> CSSProperties" where
  "applyAbsoluteLayout css layout n parentNode =
     (case parentNode of
        None \<Rightarrow> css(''position'' \<mapsto> Lit ''relative'', ''overflow'' \<mapsto> Lit ''hidden'')
      | Some parent \<Rightarrow>
          (let css1 = css(''position'' \<mapsto> Lit ''absolute'') in
           case lp_position layout of
             None \<Rightarrow> css1
           | Some pos \<Rightarrow>
               (case lp_position (pn_layout parent) of
                  None \<Rightarrow> css1
                | Some ppos \<Rightarrow>
                    (let x = round2 (pos_x pos - pos_x ppos);
                         y = round2 (pos_y pos - pos_y ppos);
                         isDecorativeContainer =
                           (truthy (lp_height layout) \<and> the (lp_height layout) < 30 \<and>
                            strIncludes (toLowerCase (pn_name n)) ''indicator'');
                         parentWidth = orZero (lp_width (pn_layout parent));
                         elementWidth = orZero (lp_width layout)
                     in if isDecorativeContainer \<and> parentWidth > 0 \<and> elementWidth > 0 then
                          (let centerX = (parentWidth - elementWidth) / 2;
                               isCentered = (abs (x - centerX) < 10)
                           in if isCentered \<or> elementWidth = parentWidth then
                                css1(''left'' \<mapsto> Lit ''50%'',
                                     ''transform'' \<mapsto> Lit ''translateX(-50%)'',
                                     ''top'' \<mapsto> Px y)
                              else css1(''left'' \<mapsto> Px x, ''top'' \<mapsto> Px y))
                        else css1(''left'' \<mapsto> Px x, ''top'' \<mapsto> Px y)))))"

text \<open>\<^verbatim>\<open>applyFlexboxLayout\<close> writes four groups of properties, one after the other.\<close>

definition flexDirectionCSS :: "CSSProperties \<Rightarrow> LayoutProperties \<Rightarrow> CSSProperties" where
  "flexDirectionCSS css layout =
     css(''display'' \<mapsto> Lit ''flex'',
         ''flexDirection'' \<mapsto>
           (case lp_flexDirection layout of
              Some Row \<Rightarrow> Lit ''row''
            | Some Column \<Rightarrow> Lit ''column''
            | None \<Rightarrow> Lit ''column''))"

definition flexGapCSS :: "CSSProperties \<Rightarrow> LayoutProperties \<Rightarrow> CSSProperties" where
  "flexGapCSS css layout =
     (case lp_gap layout of
        None \<Rightarrow> css
      | Some g \<Rightarrow> if g > 0 then css(''gap'' \<mapsto> Px (round2 g)) else css)"

definition flexPaddingCSS :: "CSSProperties \<Rightarrow> LayoutProperties \<Rightarrow> CSSProperties" where
  "flexPaddingCSS css layout =
     (case lp_padding layout of
        None \<Rightarrow> css
      | Some pad \<Rightarrow>
          (let preciseTop = round2 (sp_top pad);
               preciseRight = round2 (sp_right pad);
               preciseBottom = round2 (sp_bottom pad);
               preciseLeft = round2 (sp_left pad)
           in if preciseTop = preciseRight \<and> preciseRight = preciseBottom
                 \<and> preciseBottom = preciseLeft then
                (if preciseTop > 0 then css(''padding'' \<mapsto> PxList [preciseTop]) else css)
              else if preciseTop = preciseBottom \<and> preciseLeft = preciseRight then
                (if preciseTop > 0 \<or> preciseLeft > 0
                 then css(''padding'' \<mapsto> PxList [preciseTop, preciseRight])
                 else css)
              else css(''padding'' \<mapsto>
                     PxList [preciseTop, preciseRight, preciseBottom, preciseLeft])))"

definition flexAlignCSS :: "CSSProperties \<Rightarrow> LayoutProperties \<Rightarrow> CSSProperties" where
  "flexAlignCSS css layout =
     (let css1 = (if truthyStr (lp_alignItems layout)
                  then css(''alignItems'' \<mapsto> Lit (the (lp_alignItems layout)))
                  else css)
      in if truthyStr (lp_justifyContent layout)
         then css1(''justifyContent'' \<mapsto> Lit (the (lp_justifyContent layout)))
         else css1)"

definition applyFlexboxLayout :: "CSSProperties \<Rightarrow> LayoutProperties \<Rightarrow> CSSProperties" where
  "applyFlexboxLayout css layout =
     flexAlignCSS (flexPaddingCSS (flexGapCSS (flexDirectionCSS css layout) layout) layout) layout"

definition applyGridLayout :: "CSSProperties \<Rightarrow> LayoutProperties \<Rightarrow> CSSProperties" where
  "applyGridLayout css layout =
     (let css1 = css(''display'' \<mapsto> Lit ''grid'');
          css2 = (case lp_gap layout of
                    None \<Rightarrow> css1
                  | Some g \<Rightarrow> if g > 0 then css1(''gap'' \<mapsto> Px g) else css1)
      in case lp_padding layout of
           None \<Rightarrow> css2
         | Some pad \<Rightarrow>
             css2(''padding'' \<mapsto> PxList [sp_top pad, sp_right pad, sp_bottom pad, sp_left pad]))"

definition applyStaticLayout :: "CSSProperties \<Rightarrow> LayoutProperties \<Rightarrow> CSSProperties" where
  "applyStaticLayout css layout =
     (case lp_padding layout of
        None \<Rightarrow> css
      | Some pad \<Rightarrow>
          css(''padding'' \<mapsto> PxList [sp_top pad, sp_right pad, sp_bottom pad, sp_left pad]))"

definition constrainHorizontal :: "CSSProperties \<Rightarrow> string \<Rightarrow> CSSProperties" where
  "constrainHorizontal css horizontal =
     (if horizontal = ''LEFT'' then css
      else if horizontal = ''RIGHT'' then (css(''right'' \<mapsto> Lit ''0''))(''left'' := None)
      else if horizontal = ''CENTER'' then
        css(''left'' \<mapsto> Lit ''50%'', ''transform'' \<mapsto> Lit ''translateX(-50%)'')
      else if horizontal = ''LEFT_RIGHT'' then
        (css(''left'' \<mapsto> Lit ''0'', ''right'' \<mapsto> Lit ''0''))(''width'' := None)
      else if horizontal = ''SCALE'' then
        (if cssTruthy (css ''width'') then css(''width'' \<mapsto> Lit ''100%'') else css)
      else css)"

text \<open>
  The only values the engine stores under \<^verbatim>\<open>transform\<close> are literal texts, so the
  template \<^verbatim>\<open>`${existingTransform} translateY(-50%)`\<close> is modelled on them.
\<close>

definition constrainVertical :: "CSSProperties \<Rightarrow> string \<Rightarrow> CSSProperties" where
  "constrainVertical css vertical =
     (if vertical = ''TOP'' then css
      else if vertical = ''BOTTOM'' then (css(''bottom'' \<mapsto> Lit ''0''))(''top'' := None)
      else if vertical = ''CENTER'' then
        (let css1 = css(''top'' \<mapsto> Lit ''50%'') in
         case css1 ''transform'' of
           Some (Lit existingTransform) \<Rightarrow>
             if existingTransform \<noteq> []
             then css1(''transform'' \<mapsto> Lit (existingTransform @ '' translateY(-50%)''))
             else css1(''transform'' \<mapsto> Lit ''translateY(-50%)'')
         | _ \<Rightarrow> css1(''transform'' \<mapsto> Lit ''translateY(-50%)''))
      else if vertical = ''TOP_BOTTOM'' then
        (css(''top'' \<mapsto> Lit ''0'', ''bottom'' \<mapsto> Lit ''0''))(''height'' := None)
      else if vertical = ''SCALE'' then
        (if cssTruthy (css ''height'') then css(''height'' \<mapsto> Lit ''100%'') else css)
      else css)"

definition applyConstraints :: "CSSProperties \<Rightarrow> Constraints \<Rightarrow> CSSProperties" where
  "applyConstraints css c = constrainVertical (constrainHorizontal css (cn_horizontal c)) (cn_vertical c)"

text \<open>
  \<^verbatim>\<open>generateLayoutCSS\<close>, block by block. The strategy override and the dispatch on the
  effective strategy:
\<close>

definition effectiveStrategy :: "ParsedNode \<Rightarrow> ParsedNode option \<Rightarrow> LayoutStrategy" where
  "effectiveStrategy n parentNode =
     (let layout = pn_layout n;
          isDecorativeLine =
            (truthy (lp_height layout) \<and> the (lp_height layout) < 10 \<and>
             truthy (lp_width layout) \<and> the (lp_width layout) > 20);
          isDecorativeContainer =
            (truthy (lp_height layout) \<and> the (lp_height layout) < 30 \<and>
             strIncludes (toLowerCase (pn_name n)) ''indicator'');
          parentIsFlexbox =
            (case parentNode of None \<Rightarrow> False
             | Some parent \<Rightarrow> lp_strategy (pn_layout parent) = Flexbox)
      in if (isDecorativeLine \<or> isDecorativeContainer) \<and> parentIsFlexbox
            \<and> lp_strategy layout = Absolute
         then Static
         else lp_strategy layout)"

definition applyStrategy :: "ParsedNode \<Rightarrow> ParsedNode option \<Rightarrow> CSSProperties" where
  "applyStrategy n parentNode =
     (case effectiveStrategy n parentNode of
        Absolute \<Rightarrow> applyAbsoluteLayout Map.empty (pn_layout n) n parentNode
      | Flexbox \<Rightarrow> applyFlexboxLayout Map.empty (pn_layout n)
      | Grid \<Rightarrow> applyGridLayout Map.empty (pn_layout n)
      | Static \<Rightarrow> applyStaticLayout Map.empty (pn_layout n))"

text \<open>The width.\<close>

definition applyWidth :: "CSSProperties \<Rightarrow> LayoutProperties \<Rightarrow> CSSProperties" where
  "applyWidth css layout =
     (case lp_width layout of
        None \<Rightarrow> css
      | Some w \<Rightarrow> if w > 0 then css(''width'' \<mapsto> Px (round2 w)) else css)"

text \<open>The centring of decorative and centred elements.\<close>

definition applyCentering :: "CSSProperties \<Rightarrow> ParsedNode \<Rightarrow> ParsedNode option \<Rightarrow> CSSProperties" where
  "applyCentering css n parentNode =
     (let layout = pn_layout n in
      case parentNode of
        None \<Rightarrow> css
      | Some parent \<Rightarrow>
          if truthy (lp_width layout) \<and> truthy (lp_height layout)
             \<and> lp_position layout \<noteq> None \<and> lp_position (pn_layout parent) \<noteq> None
             \<and> truthy (lp_width (pn_layout parent))
          then
            (let relativeX = pos_x (the (lp_position layout))
                             - pos_x (the (lp_position (pn_layout parent)));
                 parentWidth = the (lp_width (pn_layout parent));
                 elementWidth = the (lp_width layout);
                 elementHeight = the (lp_height layout);
                 centerX = (parentWidth - elementWidth) / 2;
                 isCentered = (abs (relativeX - centerX) < 5);
                 isDecorativeLine =
                   (elementHeight < 10 \<and> elementWidth > 20 \<and> elementWidth < parentWidth * (8 / 10));
                 isDecorativeContainer =
                   (elementHeight < 30 \<and> strIncludes (toLowerCase (pn_name n)) ''indicator'');
                 isSmallElement = (elementWidth < 150 \<and> elementHeight < 10);
                 css1 =
                   (if lp_strategy (pn_layout parent) = Flexbox
                       \<and> lp_flexDirection (pn_layout parent) = Some Column
                    then
                      (if isDecorativeLine \<or> isDecorativeContainer then
                         (let cssA = css(''alignSelf'' \<mapsto> Lit ''center'');
                              cssB =
                                (if truthy (lp_height (pn_layout parent)) then
                                   (let relativeY = pos_y (the (lp_position layout))
                                                    - pos_y (the (lp_position (pn_layout parent)));
                                        parentHeight = the (lp_height (pn_layout parent))
                                    in if relativeY > parentHeight * (5 / 10)
                                       then cssA(''order'' \<mapsto> Lit ''999'',
                                                 ''marginTop'' \<mapsto> Lit ''auto'')
                                       else cssA)
                                 else cssA)
                          in cssB(''position'' := None, ''left'' := None, ''top'' := None))
                       else if isCentered then css(''alignSelf'' \<mapsto> Lit ''center'')
                       else css)
                    else css)
             in if lp_strategy layout = Absolute
                   \<and> (isDecorativeLine \<or> (isSmallElement \<and> isCentered))
                then css1(''left'' \<mapsto> Lit ''50%'', ''transform'' \<mapsto> Lit ''translateX(-50%)'')
                else css1)
          else css)"

text \<open>The height, by the node's own strategy.\<close>

definition applyHeight :: "CSSProperties \<Rightarrow> LayoutProperties \<Rightarrow> CSSProperties" where
  "applyHeight css layout =
     (case lp_height layout of
        None \<Rightarrow> css
      | Some h \<Rightarrow>
          if h > 0 then
            (let preciseHeight = round2 h in
             if lp_strategy layout = Flexbox then css(''minHeight'' \<mapsto> Px preciseHeight)
             else if lp_strategy layout = Absolute then css(''height'' \<mapsto> Px preciseHeight)
             else css(''height'' \<mapsto> Px preciseHeight))
          else css)"

definition generateLayoutCSS :: "ParsedNode \<Rightarrow> ParsedNode option \<Rightarrow> CSSProperties" where
  "generateLayoutCSS n parentNode =
     (let layout = pn_layout n;
          css1 = applyStrategy n parentNode;
          css2 = applyWidth css1 layout;
          css3 = applyCentering css2 n parentNode;
          css4 = applyHeight css3 layout
      in case lp_constraints layout of
           None \<Rightarrow> css4
         | Some c \<Rightarrow> applyConstraints css4 c)"

section \<open>Specification predicates and example inputs\<close>

text \<open>A node with no optional field set, and a leaf with a bounding box.\<close>

definition emptyProps :: FigmaProps where
  "emptyProps =
     \<lparr> fn_id = [], fn_name = [], fn_type = FRAME, absoluteBoundingBox = None, fn_fills = None,
       fn_strokes = None, fn_effects = None, fn_opacity = None, fn_blendMode = None,
       fn_cornerRadius = None, layoutMode = None, primaryAxisAlignItems = None,
       counterAxisAlignItems = None, paddingLeft = None, paddingRight = None, paddingTop = None,
       paddingBottom = None, itemSpacing = None, fn_constraints = None, characters = None,
       fn_style = None, componentId = None \<rparr>"

definition boxed :: "real \<Rightarrow> real \<Rightarrow> real \<Rightarrow> real \<Rightarrow> FigmaNode" where
  "boxed x y w h =
     FigmaNode (emptyProps\<lparr> absoluteBoundingBox :=
                  Some \<lparr> bb_x = x, bb_y = y, bb_width = w, bb_height = h \<rparr> \<rparr>) None"

subsection \<open>Arrangement\<close>

text \<open>
  The condition of the specification on a sorted list: every element starts no more than
  5 before the end of its predecessor. \<open>start\<close> and \<open>extent\<close> are \<open>y\<close> and
  \<open>height\<close>, or \<open>x\<close> and \<open>width\<close>.
\<close>

definition stackedBy :: "(BoundingBox \<Rightarrow> real) \<Rightarrow> (BoundingBox \<Rightarrow> real) \<Rightarrow> FigmaNode list \<Rightarrow> bool" where
  "stackedBy start extent s =
     (\<forall>i. Suc i < length s \<longrightarrow>
        start (box (s ! Suc i)) \<ge> start (box (s ! i)) + extent (box (s ! i)) - 5)"

text \<open>
  Three boxes of height 50 at \<open>y = 0, 50, 100\<close>, and the same boxes moved to overlap
  by 20.
\<close>

definition stackExample :: "FigmaNode list" where
  "stackExample = [boxed 0 0 100 50, boxed 0 50 100 50, boxed 0 100 100 50]"

definition overlapExample :: "FigmaNode list" where
  "overlapExample = [boxed 0 0 100 50, boxed 0 30 100 50, boxed 0 60 100 50]"

subsection \<open>Layout strategy\<close>

text \<open>\<^verbatim>\<open>node.children\<close> read as a list, empty when the field is absent.\<close>

definition childList :: "FigmaNode \<Rightarrow> FigmaNode list" where
  "childList n = (case children n of None \<Rightarrow> [] | Some cs \<Rightarrow> cs)"

text \<open>
  The cascade as the specification words it: declared auto-layout, else two boxed
  children in a vertical or horizontal arrangement, else any child, else a leaf.
\<close>

definition claimedStrategy :: "FigmaNode \<Rightarrow> LayoutStrategy" where
  "claimedStrategy n =
     (if declaresAutoLayout n then Flexbox
      else if 2 \<le> length (filter hasBox (childList n))
              \<and> (detectChildArrangement (childList n) = ArrVertical
                  \<or> detectChildArrangement (childList n) = ArrHorizontal) then Flexbox
      else if 1 \<le> length (childList n) then Absolute
      else Static)"

text \<open>A canvas: no bounding box of its own, three stacked children.\<close>

definition canvasExample :: FigmaNode where
  "canvasExample = FigmaNode (emptyProps\<lparr> fn_type := CANVAS \<rparr>) (Some stackExample)"

text \<open>A frame whose three children are stacked with a uniform spacing of 0.4.\<close>

definition tightExample :: FigmaNode where
  "tightExample =
     FigmaNode (emptyProps\<lparr> absoluteBoundingBox :=
                  Some \<lparr> bb_x = 0, bb_y = 0, bb_width = 100, bb_height = 151 \<rparr> \<rparr>)
       (Some [boxed 0 0 100 50, boxed 0 (252 / 5) 100 50, boxed 0 (504 / 5) 100 50])"

subsection \<open>Visual containment\<close>




text \<open>
  Examples: a bar of height 4 and width 40 that starts 25 to the left of a panel whose only
  fill is hidden, and a label of 50 by 50 inside that panel.
\<close>

definition parsedLeaf :: "string \<Rightarrow> BoundingBox \<Rightarrow> FigmaProps \<Rightarrow> ParsedNode" where
  "parsedLeaf nm b fp =
     \<lparr> pn_id = nm, pn_name = nm, pn_type = RECTANGLE, pn_bounds = b,
       pn_styles = extractStyles fp, pn_layout = getDefaultLayout,
       pn_textContent = None, pn_componentName = None, pn_componentType = None \<rparr>"





subsection \<open>Gap estimation\<close>








subsection \<open>Cross-axis alignment vote\<close>

text \<open>
  The categories of the vote against the parent's box \<open>pb\<close>: centred (centre less than
  2 from the parent's centre), else start-aligned (near edge less than 5 from the parent's),
  else end-aligned (far edge less than 5 from the parent's); on \<open>x\<close> for a vertical
  arrangement and on \<open>y\<close> for a horizontal one.
\<close>

definition centredX :: "BoundingBox \<Rightarrow> FigmaNode \<Rightarrow> bool" where
  "centredX pb c = (abs ((bb_x (box c) + bb_width (box c) / 2) - (bb_x pb + bb_width pb / 2)) < 2)"

definition startX :: "BoundingBox \<Rightarrow> FigmaNode \<Rightarrow> bool" where
  "startX pb c = (\<not> centredX pb c \<and> abs (bb_x (box c) - bb_x pb) < 5)"

definition endX :: "BoundingBox \<Rightarrow> FigmaNode \<Rightarrow> bool" where
  "endX pb c =
     (\<not> centredX pb c \<and> \<not> startX pb c \<and>
      abs ((bb_x (box c) + bb_width (box c)) - (bb_x pb + bb_width pb)) < 5)"

definition centredY :: "BoundingBox \<Rightarrow> FigmaNode \<Rightarrow> bool" where
  "centredY pb c = (abs ((bb_y (box c) + bb_height (box c) / 2) - (bb_y pb + bb_height pb / 2)) < 2)"

definition startY :: "BoundingBox \<Rightarrow> FigmaNode \<Rightarrow> bool" where
  "startY pb c = (\<not> centredY pb c \<and> abs (bb_y (box c) - bb_y pb) < 5)"

definition endY :: "BoundingBox \<Rightarrow> FigmaNode \<Rightarrow> bool" where
  "endY pb c =
     (\<not> centredY pb c \<and> \<not> startY pb c \<and>
      abs ((bb_y (box c) + bb_height (box c)) - (bb_y pb + bb_height pb)) < 5)"

definition countOf :: "(FigmaNode \<Rightarrow> bool) \<Rightarrow> FigmaNode list \<Rightarrow> nat" where
  "countOf P bs = length (filter P bs)"

text \<open>The number of votes a category needs: 0.6 of the total from three children on, else 0.5.\<close>

definition voteThreshold :: "nat \<Rightarrow> real" where
  "voteThreshold n = real n * (if 3 \<le> n then 6 / 10 else 5 / 10)"

text \<open>
  The winner as the specification words it: the first of center, start, end that meets
  the threshold; else the largest count, with center preferred over start and start over
  end on ties; the stretch test when there is still nothing to choose from, read here as
  no category having a vote.
\<close>

definition claimedWinner :: "real \<Rightarrow> nat \<Rightarrow> nat \<Rightarrow> nat \<Rightarrow> bool \<Rightarrow> string" where
  "claimedWinner t c s e allFull =
     (if real c \<ge> t then ''center''
      else if real s \<ge> t then ''flex-start''
      else if real e \<ge> t then ''flex-end''
      else if c = 0 \<and> s = 0 \<and> e = 0 then (if allFull then ''stretch'' else ''flex-start'')
      else if c \<ge> s \<and> c \<ge> e then ''center''
      else if s \<ge> e then ''flex-start''
      else ''flex-end'')"

text \<open>
  The winner as the code has it: below the threshold center wins only with a count strictly
  above both others, then start only strictly above end, then end only strictly above
  start; the stretch test decides what is left.
\<close>

definition voteWinner :: "real \<Rightarrow> nat \<Rightarrow> nat \<Rightarrow> nat \<Rightarrow> bool \<Rightarrow> string" where
  "voteWinner t c s e allFull =
     (if real c \<ge> t then ''center''
      else if real s \<ge> t then ''flex-start''
      else if real e \<ge> t then ''flex-end''
      else if c > s \<and> c > e then ''center''
      else if s > e then ''flex-start''
      else if e > s then ''flex-end''
      else if allFull then ''stretch''
      else ''flex-start'')"

text \<open>
  A parent of width 100 with three stacked children: one centred, one at the left edge,
  one at neither.
\<close>

definition tieParent :: FigmaNode where
  "tieParent = boxed 0 0 100 300"

definition tieChildren :: "FigmaNode list" where
  "tieChildren = [boxed 40 0 20 50, boxed 0 100 30 50, boxed 20 200 30 50]"

definition tieBox :: BoundingBox where
  "tieBox = \<lparr> bb_x = 0, bb_y = 0, bb_width = 100, bb_height = 300 \<rparr>"

subsection \<open>Layout CSS\<close>

text \<open>
  Parsed nodes for the layout engine, given by name and layout: a Flexbox column of 300 by
  400, a bar of 40 by 4 and one of 40 by 0 with the Absolute strategy, and two cards of
  height 12.345, one Absolute with constraints LEFT and TOP, one Flexbox.
\<close>

definition layoutOf :: "LayoutStrategy \<Rightarrow> real \<Rightarrow> real \<Rightarrow> real \<Rightarrow> real \<Rightarrow> LayoutProperties" where
  "layoutOf strategy x y w h =
     getDefaultLayout\<lparr> lp_strategy := strategy, lp_position := Some \<lparr> pos_x = x, pos_y = y \<rparr>,
                      lp_width := Some w, lp_height := Some h \<rparr>"

definition parsedWith :: "string \<Rightarrow> LayoutProperties \<Rightarrow> ParsedNode" where
  "parsedWith nm layout =
     \<lparr> pn_id = nm, pn_name = nm, pn_type = FRAME,
       pn_bounds = \<lparr> bb_x = pos_x (the (lp_position layout)), bb_y = pos_y (the (lp_position layout)),
                     bb_width = the (lp_width layout), bb_height = the (lp_height layout) \<rparr>,
       pn_styles = getDefaultStyles, pn_layout = layout,
       pn_textContent = None, pn_componentName = None, pn_componentType = None \<rparr>"

definition flexColumnParent :: ParsedNode where
  "flexColumnParent =
     parsedWith ''Screen'' ((layoutOf Flexbox 0 0 300 400)\<lparr> lp_flexDirection := Some Column \<rparr>)"

definition dividerExample :: ParsedNode where
  "dividerExample = parsedWith ''Divider'' (layoutOf Absolute 20 100 40 4)"

definition hairlineExample :: ParsedNode where
  "hairlineExample = parsedWith ''Divider'' (layoutOf Absolute 20 100 40 0)"

definition stretchedCard :: ParsedNode where
  "stretchedCard =
     parsedWith ''Card'' ((layoutOf Absolute 0 0 300 (12345 / 1000))
       \<lparr> lp_constraints := Some \<lparr> cn_horizontal = ''LEFT'', cn_vertical = ''TOP'' \<rparr> \<rparr>)"

definition flexCard :: ParsedNode where
  "flexCard = parsedWith ''Card'' (layoutOf Flexbox 0 0 300 (12345 / 1000))"

subsection \<open>Parsing\<close>

text \<open>
  A table of components whose entry \<open>1:2\<close> has no name, an instance of that
  component, a frame that holds the instance between two boxes, and a parser over the
  table with no warnings yet.
\<close>

definition namelessComponents :: Components where
  "namelessComponents = Map.empty(''1:2'' \<mapsto> \<lparr> cmp_name = None \<rparr>)"

definition brokenInstance :: FigmaNode where
  "brokenInstance =
     FigmaNode (emptyProps\<lparr> fn_id := ''7:1'', fn_name := ''Badge'', fn_type := INSTANCE,
                  absoluteBoundingBox := Some \<lparr> bb_x = 0, bb_y = 60, bb_width = 100, bb_height = 50 \<rparr>,
                  componentId := Some ''1:2'' \<rparr>)
       (Some [boxed 0 60 10 10])"

definition frameWithBroken :: FigmaNode where
  "frameWithBroken =
     FigmaNode (emptyProps\<lparr> fn_id := ''7:0'', fn_name := ''Frame'' \<rparr>)
       (Some [boxed 0 0 100 50, brokenInstance, boxed 0 120 100 50])"

definition freshParser :: Parser where
  "freshParser = \<lparr> warnings = [], components = namelessComponents \<rparr>"

subsection \<open>Containment resolution\<close>

text \<open>
  A node is a child of another when its address is in the other's children array; an
  ancestor is reached by one or more such steps.
\<close>

definition isChild :: "Store \<Rightarrow> addr \<Rightarrow> addr \<Rightarrow> bool" where
  "isChild h p c = (c \<in> set (cell_children (h p)))"

definition isAncestor :: "Store \<Rightarrow> addr \<Rightarrow> addr \<Rightarrow> bool" where
  "isAncestor h = tranclp (isChild h)"

definition ownAncestorAfter :: "Store option \<Rightarrow> addr \<Rightarrow> bool" where
  "ownAncestorAfter r x = (case r of None \<Rightarrow> False | Some h \<Rightarrow> isAncestor h x x)"

text \<open>
  The tree below an address, read back from the store by value; \<open>None\<close> when the fuel
  does not reach the leaves. \<open>resolvedOnce\<close> and \<open>resolvedTwice\<close> are the trees after
  one and after two runs of the regrouping.
\<close>

fun snapshot :: "nat \<Rightarrow> Store \<Rightarrow> addr \<Rightarrow> ParsedTree option" where
  "snapshot 0 h a = None"
| "snapshot (Suc n) h a =
     map_option (ParsedTree (cell_node (h a))) (those (map (snapshot n h) (cell_children (h a))))"

definition resolvedOnce :: "nat \<Rightarrow> Store \<Rightarrow> addr \<Rightarrow> ParsedTree option" where
  "resolvedOnce n h a =
     (case regroupByVisualContainment n h a of None \<Rightarrow> None | Some h1 \<Rightarrow> snapshot n h1 a)"

definition regroupTwice :: "nat \<Rightarrow> Store \<Rightarrow> addr \<Rightarrow> Store option" where
  "regroupTwice n h a =
     (case regroupByVisualContainment n h a of
        None \<Rightarrow> None
      | Some h1 \<Rightarrow> regroupByVisualContainment n h1 a)"

definition resolvedTwice :: "nat \<Rightarrow> Store \<Rightarrow> addr \<Rightarrow> ParsedTree option" where
  "resolvedTwice n h a =
     (case regroupTwice n h a of None \<Rightarrow> None | Some h2 \<Rightarrow> snapshot n h2 a)"

text \<open>
  A tree is settled when, at every node, no child passes the containment test against any
  of its siblings. The fuel bounds the depth, so a settled tree is finite.
\<close>

definition noneContained :: "Store \<Rightarrow> addr list \<Rightarrow> bool" where
  "noneContained h cs = list_all (\<lambda>i. firstContainer h cs i = None) [0..<length cs]"

fun settled :: "nat \<Rightarrow> Store \<Rightarrow> addr \<Rightarrow> bool" where
  "settled 0 h a = False"
| "settled (Suc n) h a =
     (noneContained h (cell_children (h a)) \<and> list_all (settled n h) (cell_children (h a)))"

text \<open>
  Example stores. \<open>nestStore\<close>: a root with a filled panel and a label; the panel holds
  a filled inner panel; the label lies inside the panel and inside the inner panel.
  \<open>barStore\<close>: a root with two thin bars ten apart. \<open>chainStore\<close>: root, panel,
  inner panel and label nested one in the other.
\<close>

definition filledProps :: FigmaProps where
  "filledProps = emptyProps\<lparr> fn_fills := Some [\<lparr> fill_type = ''SOLID'', fill_visible = None \<rparr>] \<rparr>"

definition cell :: "ParsedNode \<Rightarrow> addr list \<Rightarrow> Cell" where
  "cell n cs = \<lparr> cell_node = n, cell_children = cs \<rparr>"

definition emptyStore :: Store where
  "emptyStore = (\<lambda>a. cell (parsedLeaf [] zeroBounds emptyProps) [])"

definition nestStore :: Store where
  "nestStore = emptyStore
     (0 := cell (parsedLeaf ''Root'' \<lparr> bb_x = 0, bb_y = 0, bb_width = 400, bb_height = 400 \<rparr> emptyProps) [1, 3],
      1 := cell (parsedLeaf ''Panel'' \<lparr> bb_x = 0, bb_y = 0, bb_width = 200, bb_height = 200 \<rparr> filledProps) [2],
      2 := cell (parsedLeaf ''Inner'' \<lparr> bb_x = 10, bb_y = 10, bb_width = 100, bb_height = 100 \<rparr> filledProps) [],
      3 := cell (parsedLeaf ''Label'' \<lparr> bb_x = 20, bb_y = 20, bb_width = 30, bb_height = 30 \<rparr> emptyProps) [])"

definition barStore :: Store where
  "barStore = emptyStore
     (0 := cell (parsedLeaf ''Root'' \<lparr> bb_x = 0, bb_y = 0, bb_width = 400, bb_height = 400 \<rparr> emptyProps) [1, 2],
      1 := cell (parsedLeaf ''Bar A'' \<lparr> bb_x = 0, bb_y = 0, bb_width = 40, bb_height = 4 \<rparr> emptyProps) [],
      2 := cell (parsedLeaf ''Bar B'' \<lparr> bb_x = 0, bb_y = 10, bb_width = 40, bb_height = 4 \<rparr> emptyProps) [])"

definition childrenAfter :: "Store option \<Rightarrow> addr \<Rightarrow> addr list option" where
  "childrenAfter r x = (case r of None \<Rightarrow> None | Some h \<Rightarrow> Some (cell_children (h x)))"

definition chainStore :: Store where
  "chainStore = emptyStore
     (0 := cell (parsedLeaf ''Root'' \<lparr> bb_x = 0, bb_y = 0, bb_width = 400, bb_height = 400 \<rparr> emptyProps) [1],
      1 := cell (parsedLeaf ''Panel'' \<lparr> bb_x = 0, bb_y = 0, bb_width = 200, bb_height = 200 \<rparr> filledProps) [2],
      2 := cell (parsedLeaf ''Inner'' \<lparr> bb_x = 10, bb_y = 10, bb_width = 100, bb_height = 100 \<rparr> filledProps) [3],
      3 := cell (parsedLeaf ''Label'' \<lparr> bb_x = 20, bb_y = 20, bb_width = 30, bb_height = 30 \<rparr> emptyProps) [])"

text \<open>
  The nodes of the store that form a tree below an address. \<open>region n h a\<close> is the set
  of addresses reached from \<open>a\<close> in at most \<open>n\<close> steps; \<open>isTree n h a\<close> says that
  below \<open>a\<close>, to a depth less than \<open>n\<close>, every children array is free of repetitions,
  the subtrees of different children share no address and no node occurs below itself.
  This is the shape of what \<open>parseNode\<close> builds.
\<close>

fun region :: "nat \<Rightarrow> Store \<Rightarrow> addr \<Rightarrow> addr set" where
  "region 0 h a = {a}"
| "region (Suc n) h a = insert a (\<Union>c \<in> set (cell_children (h a)). region n h c)"

fun isTree :: "nat \<Rightarrow> Store \<Rightarrow> addr \<Rightarrow> bool" where
  "isTree 0 h a = False"
| "isTree (Suc n) h a =
     (distinct (cell_children (h a)) \<and>
      (\<forall>c \<in> set (cell_children (h a)). isTree n h c \<and> a \<notin> region n h c) \<and>
      (\<forall>c \<in> set (cell_children (h a)). \<forall>d \<in> set (cell_children (h a)).
          c \<noteq> d \<longrightarrow> region n h c \<inter> region n h d = {}))"

text \<open>
  From a child, \<open>chain\<close> follows the links to the first sibling that contains it, to the
  first sibling that contains that one, and so on, and counts the links up to a child
  that no sibling contains; the fuel is the number of children, which a chain that never
  returns to a child it has visited cannot exhaust. \<open>noLoop\<close> says that the chain of every
  child ends, \<open>calm\<close> that this holds at every node below an address.
\<close>

fun chain :: "nat \<Rightarrow> (nat \<Rightarrow> nat option) \<Rightarrow> nat \<Rightarrow> nat option" where
  "chain 0 t i = None"
| "chain (Suc k) t i = (case t i of None \<Rightarrow> Some 0 | Some j \<Rightarrow> map_option Suc (chain k t j))"

definition noLoop :: "Store \<Rightarrow> addr list \<Rightarrow> bool" where
  "noLoop h cs = list_all (\<lambda>i. chain (length cs) (firstContainer h cs) i \<noteq> None) [0..<length cs]"

fun calm :: "nat \<Rightarrow> Store \<Rightarrow> addr \<Rightarrow> bool" where
  "calm 0 h a = True"
| "calm (Suc n) h a =
     (noLoop h (cell_children (h a)) \<and> list_all (calm n h) (cell_children (h a)))"

text \<open>
  Notions for the proofs: two stores hold the same nodes; they have the same children
  arrays outside a set of addresses; the children arrays of a set of addresses stay inside
  the set and avoid its root; a set of addresses carries a rank that grows from every node
  to its children.
\<close>

definition sameNodes :: "Store \<Rightarrow> Store \<Rightarrow> bool" where
  "sameNodes h h' = (\<forall>x. cell_node (h' x) = cell_node (h x))"

definition keptOff :: "addr set \<Rightarrow> Store \<Rightarrow> Store \<Rightarrow> bool" where
  "keptOff R h h' = (\<forall>x. x \<notin> R \<longrightarrow> cell_children (h' x) = cell_children (h x))"

definition closedIn :: "addr set \<Rightarrow> addr \<Rightarrow> Store \<Rightarrow> bool" where
  "closedIn R a h = (\<forall>x \<in> R. set (cell_children (h x)) \<subseteq> R - {a})"

definition ranked :: "addr set \<Rightarrow> Store \<Rightarrow> bool" where
  "ranked R h = (\<exists>f :: addr \<Rightarrow> nat. \<forall>x \<in> R. \<forall>c \<in> set (cell_children (h x)). f x < f c)"

definition resolves :: "nat \<Rightarrow> Store \<Rightarrow> addr \<Rightarrow> Store \<Rightarrow> bool" where
  "resolves n h a h' =
     (regroupByVisualContainment n h a = Some h' \<and> sameNodes h h' \<and>
      keptOff (region n h a) h h' \<and> closedIn (region n h a) a h' \<and>
      (calm n h a \<longrightarrow> ranked (region n h a) h'))"

section \<open>Verified properties\<close>

subsection \<open>Arrangement of the children\<close>

lemma scanVertical_iff: "scanVertical s = stackedBy bb_y bb_height s"
proof (induction s rule: scanVertical.induct)
  case (1 current "next" rest)
  have "stackedBy bb_y bb_height (current # next # rest) =
        (bb_y (box next) \<ge> bb_y (box current) + bb_height (box current) - 5 \<and>
         stackedBy bb_y bb_height (next # rest))"
    unfolding stackedBy_def
    by (auto simp: nth_Cons split: nat.splits)
  with 1 show ?case by auto
qed (simp_all add: stackedBy_def)

lemma scanHorizontal_iff: "scanHorizontal s = stackedBy bb_x bb_width s"
proof (induction s rule: scanHorizontal.induct)
  case (1 current "next" rest)
  have "stackedBy bb_x bb_width (current # next # rest) =
        (bb_x (box next) \<ge> bb_x (box current) + bb_width (box current) - 5 \<and>
         stackedBy bb_x bb_width (next # rest))"
    unfolding stackedBy_def
    by (auto simp: nth_Cons split: nat.splits)
  with 1 show ?case by auto
qed (simp_all add: stackedBy_def)

text \<open>The sort of the model orders by the key and keeps the elements.\<close>

lemma sortByY_sorted: "sorted (map (\<lambda>c. bb_y (box c)) (sortByY cs)) \<and> mset (sortByY cs) = mset cs"
  by (simp add: sortByY_def)

lemma sortByX_sorted: "sorted (map (\<lambda>c. bb_x (box c)) (sortByX cs)) \<and> mset (sortByX cs) = mset cs"
  by (simp add: sortByX_def)

text \<open>
  Claim C6. With fewer than two children that have a bounding box the arrangement is
  complex. Otherwise it is vertical exactly when, in the boxed children sorted by \<open>y\<close>,
  every element satisfies \<open>next.y \<ge> current.y + current.height - 5\<close> against its
  predecessor; failing that it is horizontal exactly when the same holds for \<open>x\<close> and
  \<open>width\<close> in the children sorted by \<open>x\<close>; and it is complex when neither holds.
\<close>

theorem detectChildArrangement_classifies:
  fixes cs :: "FigmaNode list"
  defines "bs \<equiv> filter hasBox cs"
  defines "vert \<equiv> stackedBy bb_y bb_height (sortByY bs)"
  defines "horiz \<equiv> stackedBy bb_x bb_width (sortByX bs)"
  shows "(length bs < 2 \<longrightarrow> detectChildArrangement cs = ArrComplex) \<and>
         (2 \<le> length bs \<longrightarrow>
            (detectChildArrangement cs = ArrVertical \<longleftrightarrow> vert) \<and>
            (detectChildArrangement cs = ArrHorizontal \<longleftrightarrow> \<not> vert \<and> horiz) \<and>
            (detectChildArrangement cs = ArrComplex \<longleftrightarrow> \<not> vert \<and> \<not> horiz))"
  unfolding bs_def vert_def horiz_def
  by (simp add: detectChildArrangement_def Let_def scanVertical_iff scanHorizontal_iff)

text \<open>
  The two examples of the specification: the stacked boxes are vertical, the overlapping
  ones are complex.
\<close>

theorem detectChildArrangement_examples:
  "detectChildArrangement stackExample = ArrVertical \<and>
   detectChildArrangement overlapExample = ArrComplex"
proof -
  have l: "2 \<le> length (filter hasBox stackExample)"
    by (simp add: stackExample_def hasBox_def boxed_def emptyProps_def)
  have v: "stackedBy bb_y bb_height (sortByY (filter hasBox stackExample))"
    unfolding scanVertical_iff[symmetric]
    by (simp add: stackExample_def sortByY_def hasBox_def box_def boxed_def emptyProps_def)
  have l2: "2 \<le> length (filter hasBox overlapExample)"
    by (simp add: overlapExample_def hasBox_def boxed_def emptyProps_def)
  have v2: "\<not> stackedBy bb_y bb_height (sortByY (filter hasBox overlapExample))"
    unfolding scanVertical_iff[symmetric]
    by (simp add: overlapExample_def sortByY_def hasBox_def box_def boxed_def emptyProps_def)
  have h2: "\<not> stackedBy bb_x bb_width (sortByX (filter hasBox overlapExample))"
    unfolding scanHorizontal_iff[symmetric]
    by (simp add: overlapExample_def sortByX_def hasBox_def box_def boxed_def emptyProps_def)
  from detectChildArrangement_classifies[of stackExample] l v
  have a: "detectChildArrangement stackExample = ArrVertical" by blast
  from detectChildArrangement_classifies[of overlapExample] l2 v2 h2
  have b: "detectChildArrangement overlapExample = ArrComplex" by blast
  from a b show ?thesis by simp
qed

subsection \<open>Layout strategy\<close>

lemma arrangement_needs_two:
  "detectChildArrangement cs = ArrVertical \<or> detectChildArrangement cs = ArrHorizontal
   \<Longrightarrow> 2 \<le> length (filter hasBox cs)"
  by (auto simp: detectChildArrangement_def Let_def split: if_splits)

lemma filter_length_le: "2 \<le> length (filter P cs) \<Longrightarrow> 2 \<le> length cs"
  using length_filter_le[of P cs] by linarith

text \<open>
  Claim C2 fails as stated: the inferred strategies are guarded by the node's own
  bounding box. The canvas with three stacked children has none, so the code answers
  Static where the cascade of the claim answers Flexbox.
\<close>

theorem determineLayoutStrategy_counterexample:
  "determineLayoutStrategy canvasExample = Static \<and> claimedStrategy canvasExample = Flexbox"
proof -
  have a: "detectChildArrangement stackExample = ArrVertical"
    by (simp add: detectChildArrangement_def stackExample_def sortByY_def hasBox_def box_def
        boxed_def emptyProps_def)
  have b: "length (filter hasBox stackExample) = 3"
    by (simp add: stackExample_def hasBox_def boxed_def emptyProps_def)
  show ?thesis
    by (simp add: a b determineLayoutStrategy_def claimedStrategy_def canvasExample_def
        childList_def declaresAutoLayout_def emptyProps_def)
qed

text \<open>
  Claim C2, amended. A node that declares an auto-layout mode other than NONE is Flexbox.
  Otherwise, a node that has a bounding box of its own and at least two boxed children
  whose arrangement is vertical or horizontal is Flexbox; otherwise a node that has a
  bounding box of its own and at least one child is Absolute; every other node (a leaf, or
  a node without a bounding box) is Static.
\<close>

theorem determineLayoutStrategy_cascade:
  "determineLayoutStrategy n =
     (if declaresAutoLayout n then Flexbox
      else if hasBox n \<and> 2 \<le> length (filter hasBox (childList n))
              \<and> (detectChildArrangement (childList n) = ArrVertical
                  \<or> detectChildArrangement (childList n) = ArrHorizontal) then Flexbox
      else if hasBox n \<and> 1 \<le> length (childList n) then Absolute
      else Static)"
proof (cases "children n")
  case None
  then show ?thesis
    by (simp add: determineLayoutStrategy_def childList_def detectChildArrangement_def)
next
  case (Some cs)
  show ?thesis
  proof (cases "detectChildArrangement cs = ArrVertical \<or> detectChildArrangement cs = ArrHorizontal")
    case True
    from arrangement_needs_two[OF True] have two: "2 \<le> length (filter hasBox cs)" .
    from filter_length_le[OF two] have "0 < length cs" by (cases cs) auto
    with Some True two show ?thesis
      by (auto simp: determineLayoutStrategy_def childList_def hasBox_def Let_def)
  next
    case False
    with Some show ?thesis
      by (auto simp: determineLayoutStrategy_def childList_def hasBox_def Let_def Suc_le_eq)
  qed
qed

subsection \<open>The gap of an inferred Flexbox layout\<close>

text \<open>
  Claim C9. For a node without declared auto-layout whose strategy is Flexbox, the gap
  of the layout is the estimated average gap when that is strictly greater than 0.5, and
  is absent otherwise.
\<close>

theorem extractLayout_gap:
  assumes "\<not> declaresAutoLayout n" and "determineLayoutStrategy n = Flexbox"
  shows "lp_gap (extractLayout n) =
           (let g = calculateChildGaps (childList n) (detectChildArrangement (childList n))
            in if g > 1 / 2 then Some g else None)"
proof -
  from assms obtain cs where cs: "children n = Some cs"
    by (cases "children n") (auto simp: determineLayoutStrategy_def)
  from assms cs have arr:
    "detectChildArrangement cs = ArrVertical \<or> detectChildArrangement cs = ArrHorizontal"
    by (auto simp: determineLayoutStrategy_def Let_def split: if_splits)
  from filter_length_le[OF arrangement_needs_two[OF arr]] have len: "1 < length cs" by linarith
  have base: "lp_gap (layoutPositionSize n) = None"
    by (simp add: layoutPositionSize_def Let_def split: option.splits)
  have strat: "lp_strategy (layoutPositionSize n) = Flexbox"
    using assms(2) by (simp add: layoutPositionSize_def Let_def split: option.splits)
  show ?thesis
    using assms(1) cs len base strat
    by (simp add: extractLayout_def layoutDetected_def childList_def Let_def split: option.splits)
qed

text \<open>A uniform spacing of 0.4 is estimated as 0.4 and leaves the gap absent.\<close>

theorem extractLayout_gap_example:
  "calculateChildGaps (childList tightExample) (detectChildArrangement (childList tightExample)) = 2 / 5
   \<and> lp_gap (extractLayout tightExample) = None"
proof -
  have cl: "childList tightExample =
              [boxed 0 0 100 50, boxed 0 (252 / 5) 100 50, boxed 0 (504 / 5) 100 50]"
    by (simp add: childList_def tightExample_def)
  have arr: "detectChildArrangement (childList tightExample) = ArrVertical"
    unfolding cl
    by (simp add: detectChildArrangement_def sortByY_def hasBox_def box_def boxed_def emptyProps_def)
  have g: "calculateChildGaps (childList tightExample) ArrVertical = 2 / 5"
    unfolding cl
    by (simp add: calculateChildGaps_def collectGaps_def sortByY_def hasBox_def box_def boxed_def
        emptyProps_def round2_def mathRound_def Let_def)
  have nd: "\<not> declaresAutoLayout tightExample"
    by (simp add: declaresAutoLayout_def tightExample_def emptyProps_def)
  have st: "determineLayoutStrategy tightExample = Flexbox"
    using arr nd by (simp add: determineLayoutStrategy_def childList_def tightExample_def emptyProps_def)
  from extractLayout_gap[OF nd st] arr g show ?thesis by simp
qed

subsection \<open>Visual containment\<close>

text \<open>The string functions of the model are prefix and substring.\<close>

lemma startsWith_iff: "startsWith s n \<longleftrightarrow> (\<exists>q. s = n @ q)"
  by (induction s n rule: startsWith.induct) auto

lemma strIncludes_iff: "strIncludes s n \<longleftrightarrow> (\<exists>p q. s = p @ n @ q)"
proof (induction s n rule: strIncludes.induct)
  case (1 n)
  then show ?case by auto
next
  case (2 a s n)
  show ?case
  proof
    assume "strIncludes (a # s) n"
    then consider "startsWith (a # s) n" | "strIncludes s n" by auto
    then show "\<exists>p q. a # s = p @ n @ q"
    proof cases
      case 1
      then obtain q where "a # s = n @ q" by (auto simp: startsWith_iff)
      then have "a # s = [] @ n @ q" by simp
      then show ?thesis by blast
    next
      case 2
      with "2.IH" obtain p q where "s = p @ n @ q" by auto
      then have "a # s = (a # p) @ n @ q" by simp
      then show ?thesis by blast
    qed
  next
    assume "\<exists>p q. a # s = p @ n @ q"
    then obtain p q where pq: "a # s = p @ n @ q" by auto
    show "strIncludes (a # s) n"
    proof (cases p)
      case Nil
      with pq have "startsWith (a # s) n" by (auto simp: startsWith_iff)
      then show ?thesis by simp
    next
      case (Cons b p')
      with pq have "s = p' @ n @ q" by simp
      with "2.IH" have "strIncludes s n" by blast
      then show ?thesis by simp
    qed
  qed
qed




subsection \<open>Gap estimation\<close>











subsection \<open>Cross-axis alignment vote\<close>

text \<open>The counting loops count the members of the three categories.\<close>

lemma foldl_voteX:
  "foldl (voteX pb) (c, s, e) bs =
     (c + countOf (centredX pb) bs, s + countOf (startX pb) bs, e + countOf (endX pb) bs)"
  by (induction bs arbitrary: c s e)
     (auto simp: voteX_def countOf_def centredX_def startX_def endX_def Let_def)

lemma foldl_voteY:
  "foldl (voteY pb) (c, s, e) bs =
     (c + countOf (centredY pb) bs, s + countOf (startY pb) bs, e + countOf (endY pb) bs)"
  by (induction bs arbitrary: c s e)
     (auto simp: voteY_def countOf_def centredY_def startY_def endY_def Let_def)

lemma cascade_winner:
  "alignItemsCascade n c s e allFull = voteWinner (voteThreshold n) c s e allFull"
  by (simp add: alignItemsCascade_def voteWinner_def voteThreshold_def Let_def)

text \<open>
  Claim C5, amended. With total the number of boxed children and the threshold 0.6 of it
  from three children on and 0.5 below, \<^verbatim>\<open>alignItems\<close> is the first of center, start, end
  whose count reaches the threshold. When none does, it is center if the centred count is
  strictly greater than both other counts, else start if the start count is strictly
  greater than the end count, else end if the end count is strictly greater than the start
  count; otherwise it is stretch when every child's cross-axis size is less than 10 from
  the parent's, and start if not. Ties are therefore not broken in favour of center.
\<close>

theorem detectAlignment_alignItems:
  fixes parent :: FigmaNode and cs :: "FigmaNode list" and pb :: BoundingBox
  assumes "absoluteBoundingBox (props parent) = Some pb" and "filter hasBox cs \<noteq> []"
  defines "bs \<equiv> filter hasBox cs"
  shows "al_alignItems (detectAlignment parent cs ArrVertical) =
           Some (voteWinner (voteThreshold (length bs))
                   (countOf (centredX pb) bs) (countOf (startX pb) bs) (countOf (endX pb) bs)
                   (\<forall>b \<in> set bs. abs (bb_width (box b) - bb_width pb) < 10)) \<and>
         al_alignItems (detectAlignment parent cs ArrHorizontal) =
           Some (voteWinner (voteThreshold (length bs))
                   (countOf (centredY pb) bs) (countOf (startY pb) bs) (countOf (endY pb) bs)
                   (\<forall>b \<in> set bs. abs (bb_height (box b) - bb_height pb) < 10))"
proof -
  from assms(2) have ne: "cs \<noteq> []" by auto
  show ?thesis
    using assms(1,2) ne unfolding bs_def
    by (simp add: detectAlignment_def Let_def foldl_voteX foldl_voteY cascade_winner list_all_iff)
qed

text \<open>
  Claim C5 fails as stated: with one centred child, one start-aligned child and one child
  in no category, no count reaches 1.8; the claim prefers center on the tie of the two
  largest counts, the code answers start.
\<close>

theorem detectAlignment_tie_counterexample:
  "countOf (centredX tieBox) tieChildren = 1 \<and> countOf (startX tieBox) tieChildren = 1 \<and>
   countOf (endX tieBox) tieChildren = 0 \<and>
   claimedWinner (voteThreshold (length tieChildren)) 1 1 0 False = ''center'' \<and>
   al_alignItems (detectAlignment tieParent tieChildren ArrVertical) = Some ''flex-start''"
proof -
  have c: "countOf (centredX tieBox) tieChildren = 1"
    by (simp add: countOf_def centredX_def tieBox_def tieChildren_def box_def boxed_def emptyProps_def)
  have s: "countOf (startX tieBox) tieChildren = 1"
    by (simp add: countOf_def centredX_def startX_def tieBox_def tieChildren_def box_def boxed_def emptyProps_def)
  have e: "countOf (endX tieBox) tieChildren = 0"
    by (simp add: countOf_def centredX_def startX_def endX_def tieBox_def tieChildren_def box_def boxed_def emptyProps_def)
  have w: "claimedWinner (voteThreshold (length tieChildren)) 1 1 0 False = ''center''"
    by (simp add: claimedWinner_def voteThreshold_def tieChildren_def)
  have f: "filter hasBox tieChildren = tieChildren"
    by (simp add: tieChildren_def hasBox_def boxed_def emptyProps_def)
  have d: "al_alignItems (detectAlignment tieParent tieChildren ArrVertical) = Some ''flex-start''"
    by (simp add: detectAlignment_def tieParent_def boxed_def emptyProps_def Let_def f
        foldl_voteX c s e[simplified] tieBox_def[symmetric] alignItemsCascade_def)
       (simp add: tieChildren_def)
  from c s e w d show ?thesis by simp
qed

text \<open>The amended rule on the same children.\<close>

theorem detectAlignment_alignItems_example:
  "al_alignItems (detectAlignment tieParent tieChildren ArrVertical) = Some ''flex-start''"
proof -
  have p: "absoluteBoundingBox (props tieParent) = Some tieBox"
    by (simp add: tieParent_def boxed_def emptyProps_def tieBox_def)
  have f: "filter hasBox tieChildren = tieChildren"
    by (simp add: tieChildren_def hasBox_def boxed_def emptyProps_def)
  have ne: "filter hasBox tieChildren \<noteq> []"
    unfolding f by (simp add: tieChildren_def)
  have c: "countOf (centredX tieBox) tieChildren = 1"
    by (simp add: countOf_def centredX_def tieBox_def tieChildren_def box_def boxed_def emptyProps_def)
  have s: "countOf (startX tieBox) tieChildren = 1"
    by (simp add: countOf_def centredX_def startX_def tieBox_def tieChildren_def box_def boxed_def emptyProps_def)
  have e: "countOf (endX tieBox) tieChildren = 0"
    by (simp add: countOf_def centredX_def startX_def endX_def tieBox_def tieChildren_def box_def boxed_def emptyProps_def)
  have t: "voteThreshold (length tieChildren) = 9 / 5"
    by (simp add: voteThreshold_def tieChildren_def)
  from detectAlignment_alignItems[OF p ne] show ?thesis
    unfolding f c s e t by (simp add: voteWinner_def)
qed

subsection \<open>Layout CSS: the height\<close>

text \<open>No block before the height block writes \<open>height\<close> or \<open>minHeight\<close>.\<close>

lemma absolute_no_height:
  "applyAbsoluteLayout Map.empty layout n p ''height'' = None \<and>
   applyAbsoluteLayout Map.empty layout n p ''minHeight'' = None"
  by (simp add: applyAbsoluteLayout_def Let_def if_distribR cong: if_cong
      split del: if_split split: option.splits)

lemma padding_branches:
  "k \<noteq> ''padding'' \<Longrightarrow>
   (if A then (if B then css(''padding'' \<mapsto> u) else css)
    else if C then (if D then css(''padding'' \<mapsto> v) else css)
    else css(''padding'' \<mapsto> w)) k = css k"
  by simp

lemma flexPadding_keeps: "k \<noteq> ''padding'' \<Longrightarrow> flexPaddingCSS css layout k = css k"
proof (cases "lp_padding layout")
  case None
  then show ?thesis by (simp add: flexPaddingCSS_def)
next
  case (Some pad)
  assume "k \<noteq> ''padding''"
  from padding_branches[OF this] Some show ?thesis
    unfolding flexPaddingCSS_def Let_def by (simp only: option.case)
qed

lemma flexbox_no_height:
  "applyFlexboxLayout Map.empty layout ''height'' = None \<and>
   applyFlexboxLayout Map.empty layout ''minHeight'' = None"
proof -
  have a: "flexDirectionCSS Map.empty layout ''height'' = None \<and>
           flexDirectionCSS Map.empty layout ''minHeight'' = None"
    by (simp add: flexDirectionCSS_def)
  have b: "flexGapCSS css layout ''height'' = css ''height'' \<and>
           flexGapCSS css layout ''minHeight'' = css ''minHeight''" for css
    by (simp add: flexGapCSS_def split: option.splits)
  have d: "flexAlignCSS css layout ''height'' = css ''height'' \<and>
           flexAlignCSS css layout ''minHeight'' = css ''minHeight''" for css
    by (simp add: flexAlignCSS_def Let_def)
  show ?thesis
    by (simp add: applyFlexboxLayout_def a b d flexPadding_keeps)
qed

lemma grid_no_height:
  "applyGridLayout Map.empty layout ''height'' = None \<and>
   applyGridLayout Map.empty layout ''minHeight'' = None"
  by (simp add: applyGridLayout_def Let_def split: option.splits)

lemma static_no_height:
  "applyStaticLayout Map.empty layout ''height'' = None \<and>
   applyStaticLayout Map.empty layout ''minHeight'' = None"
  by (simp add: applyStaticLayout_def split: option.splits)

lemma strategy_no_height:
  "applyStrategy n p ''height'' = None \<and> applyStrategy n p ''minHeight'' = None"
  by (simp add: applyStrategy_def absolute_no_height flexbox_no_height grid_no_height
      static_no_height split: LayoutStrategy.splits)

lemma width_keeps:
  "k \<noteq> ''width'' \<Longrightarrow> applyWidth css layout k = css k"
  by (simp add: applyWidth_def split: option.splits)

lemma centering_keeps_height:
  "applyCentering css n p ''height'' = css ''height'' \<and>
   applyCentering css n p ''minHeight'' = css ''minHeight''"
  by (simp add: applyCentering_def Let_def if_distribR cong: if_cong
      split del: if_split split: option.splits)

lemma before_height:
  "applyCentering (applyWidth (applyStrategy n p) (pn_layout n)) n p ''height'' = None \<and>
   applyCentering (applyWidth (applyStrategy n p) (pn_layout n)) n p ''minHeight'' = None"
  by (simp add: centering_keeps_height width_keeps strategy_no_height)

lemma horizontal_keeps_height:
  "constrainHorizontal css hz ''height'' = css ''height'' \<and>
   constrainHorizontal css hz ''minHeight'' = css ''minHeight''"
  by (simp add: constrainHorizontal_def)

lemma vertical_keeps_minHeight:
  "constrainVertical css v ''minHeight'' = css ''minHeight''"
  by (simp add: constrainVertical_def Let_def if_distribR cong: if_cong
      split del: if_split split: option.splits CssValue.splits)

lemma vertical_no_height:
  "css ''height'' = None \<Longrightarrow> constrainVertical css v ''height'' = None"
  by (simp add: constrainVertical_def Let_def cssTruthy_def if_distribR cong: if_cong
      split del: if_split split: option.splits CssValue.splits)

lemma vertical_keeps_height:
  "v \<noteq> ''TOP_BOTTOM'' \<Longrightarrow> v \<noteq> ''SCALE'' \<Longrightarrow> constrainVertical css v ''height'' = css ''height''"
  by (simp add: constrainVertical_def Let_def if_distribR cong: if_cong
      split del: if_split split: option.splits CssValue.splits)

text \<open>
  Claim C10. For a node with a defined positive height, the height block of
  \<^verbatim>\<open>generateLayoutCSS\<close> writes the height rounded to two decimals under \<open>minHeight\<close>
  when the node's strategy is Flexbox and under \<open>height\<close> for every other strategy
  (Absolute, Static, Grid), and writes nothing else. In the finished CSS a Flexbox node
  has that \<open>minHeight\<close> and no \<open>height\<close>; a node of another strategy has that
  \<open>height\<close> and no \<open>minHeight\<close>, unless the constraints block that follows removes
  the height (TOP_BOTTOM) or replaces it by 100% (SCALE).
\<close>

theorem generateLayoutCSS_height:
  assumes "lp_height (pn_layout n) = Some h" and "0 < h"
  shows "applyHeight css (pn_layout n) =
           (if lp_strategy (pn_layout n) = Flexbox then css(''minHeight'' \<mapsto> Px (round2 h))
            else css(''height'' \<mapsto> Px (round2 h))) \<and>
         (lp_strategy (pn_layout n) = Flexbox \<longrightarrow>
            generateLayoutCSS n p ''minHeight'' = Some (Px (round2 h)) \<and>
            generateLayoutCSS n p ''height'' = None) \<and>
         (lp_strategy (pn_layout n) \<noteq> Flexbox \<and>
          (\<forall>c. lp_constraints (pn_layout n) = Some c \<longrightarrow>
                 cn_vertical c \<noteq> ''TOP_BOTTOM'' \<and> cn_vertical c \<noteq> ''SCALE'') \<longrightarrow>
            generateLayoutCSS n p ''height'' = Some (Px (round2 h)) \<and>
            generateLayoutCSS n p ''minHeight'' = None)"
proof (intro conjI impI)
  show step: "applyHeight css (pn_layout n) =
           (if lp_strategy (pn_layout n) = Flexbox then css(''minHeight'' \<mapsto> Px (round2 h))
            else css(''height'' \<mapsto> Px (round2 h)))" for css
    using assms by (simp add: applyHeight_def Let_def)
  define css3 where "css3 = applyCentering (applyWidth (applyStrategy n p) (pn_layout n)) n p"
  have b: "css3 ''height'' = None" "css3 ''minHeight'' = None"
    using before_height[of n p] by (simp_all add: css3_def)
  have g: "generateLayoutCSS n p =
             (case lp_constraints (pn_layout n) of
                None \<Rightarrow> applyHeight css3 (pn_layout n)
              | Some c \<Rightarrow> applyConstraints (applyHeight css3 (pn_layout n)) c)"
    unfolding css3_def by (simp add: generateLayoutCSS_def Let_def)
  {
    assume f: "lp_strategy (pn_layout n) = Flexbox"
    have h4: "applyHeight css3 (pn_layout n) ''minHeight'' = Some (Px (round2 h))"
             "applyHeight css3 (pn_layout n) ''height'' = None"
      using f b by (simp_all add: step)
    show "generateLayoutCSS n p ''minHeight'' = Some (Px (round2 h))"
      unfolding g using h4
      by (simp add: applyConstraints_def vertical_keeps_minHeight horizontal_keeps_height
          split: option.splits)
    show "generateLayoutCSS n p ''height'' = None"
      unfolding g using h4
      by (simp add: applyConstraints_def vertical_no_height horizontal_keeps_height
          split: option.splits)
  }
  {
    assume a: "lp_strategy (pn_layout n) \<noteq> Flexbox \<and>
          (\<forall>c. lp_constraints (pn_layout n) = Some c \<longrightarrow>
                 cn_vertical c \<noteq> ''TOP_BOTTOM'' \<and> cn_vertical c \<noteq> ''SCALE'')"
    have h4: "applyHeight css3 (pn_layout n) ''minHeight'' = None"
             "applyHeight css3 (pn_layout n) ''height'' = Some (Px (round2 h))"
      using a b by (simp_all add: step)
    show "generateLayoutCSS n p ''height'' = Some (Px (round2 h))"
      unfolding g using h4 a
      by (simp add: applyConstraints_def vertical_keeps_height horizontal_keeps_height
          split: option.splits)
    show "generateLayoutCSS n p ''minHeight'' = None"
      unfolding g using h4
      by (simp add: applyConstraints_def vertical_keeps_minHeight horizontal_keeps_height
          split: option.splits)
  }
qed

text \<open>A height of 12.345 is written as 12.35, for a Flexbox card and for an Absolute one.\<close>

theorem generateLayoutCSS_height_examples:
  "generateLayoutCSS flexCard None ''minHeight'' = Some (Px 12.35) \<and>
   generateLayoutCSS flexCard None ''height'' = None \<and>
   generateLayoutCSS stretchedCard None ''height'' = Some (Px 12.35) \<and>
   generateLayoutCSS stretchedCard None ''minHeight'' = None"
proof -
  have r: "round2 (12345 / 1000) = 12.35" by (simp add: round2_def mathRound_def)
  have f1: "lp_height (pn_layout flexCard) = Some (12345 / 1000)"
    by (simp add: flexCard_def parsedWith_def layoutOf_def getDefaultLayout_def)
  have f2: "lp_strategy (pn_layout flexCard) = Flexbox"
    by (simp add: flexCard_def parsedWith_def layoutOf_def getDefaultLayout_def)
  have s1: "lp_height (pn_layout stretchedCard) = Some (12345 / 1000)"
    by (simp add: stretchedCard_def parsedWith_def layoutOf_def getDefaultLayout_def)
  have s2: "lp_strategy (pn_layout stretchedCard) \<noteq> Flexbox \<and>
          (\<forall>c. lp_constraints (pn_layout stretchedCard) = Some c \<longrightarrow>
                 cn_vertical c \<noteq> ''TOP_BOTTOM'' \<and> cn_vertical c \<noteq> ''SCALE'')"
    by (auto simp add: stretchedCard_def parsedWith_def layoutOf_def getDefaultLayout_def)
  have p: "(0::real) < 12345 / 1000" by simp
  from generateLayoutCSS_height[OF f1 p, of Map.empty None] f2 r
  have a: "generateLayoutCSS flexCard None ''minHeight'' = Some (Px 12.35) \<and>
           generateLayoutCSS flexCard None ''height'' = None" by simp
  from generateLayoutCSS_height[OF s1 p, of Map.empty None] s2 r
  have b: "generateLayoutCSS stretchedCard None ''height'' = Some (Px 12.35) \<and>
           generateLayoutCSS stretchedCard None ''minHeight'' = None" by simp
  from a b show ?thesis by simp
qed

subsection \<open>Layout CSS: decorative nodes in a Flexbox parent\<close>

text \<open>
  Claim C7 asks that a decorative node whose strategy is Absolute and whose parent is
  Flexbox be rendered as Static, with no position, left or top. The code departs from it
  in two places. For the bar of 40 by 4 the effective strategy is Static, but the centring
  block tests the node's own strategy, not the effective one, and writes \<open>left: 50%\<close>
  with a transform after it has deleted position, left and top. For the bar of height 0
  the test \<^verbatim>\<open>layout.height && layout.height < 10\<close> is falsy, the strategy stays Absolute
  and position, left and top are written.
\<close>

theorem generateLayoutCSS_decorative_left:
  "effectiveStrategy dividerExample (Some flexColumnParent) = Static \<and>
   generateLayoutCSS dividerExample (Some flexColumnParent) ''left'' = Some (Lit ''50%'') \<and>
   generateLayoutCSS dividerExample (Some flexColumnParent) ''transform'' = Some (Lit ''translateX(-50%)'') \<and>
   effectiveStrategy hairlineExample (Some flexColumnParent) = Absolute \<and>
   generateLayoutCSS hairlineExample (Some flexColumnParent) ''position'' = Some (Lit ''absolute'') \<and>
   generateLayoutCSS hairlineExample (Some flexColumnParent) ''left'' = Some (Px 20) \<and>
   generateLayoutCSS hairlineExample (Some flexColumnParent) ''top'' = Some (Px 100)"
proof -
  have e1: "effectiveStrategy dividerExample (Some flexColumnParent) = Static"
    by (simp add: effectiveStrategy_def dividerExample_def flexColumnParent_def parsedWith_def
        layoutOf_def getDefaultLayout_def truthy_def Let_def)
  have e2: "effectiveStrategy hairlineExample (Some flexColumnParent) = Absolute"
    by (simp add: effectiveStrategy_def hairlineExample_def flexColumnParent_def parsedWith_def
        layoutOf_def getDefaultLayout_def truthy_def Let_def toLowerCase_def toLowerChar_def)
  have c1: "generateLayoutCSS dividerExample (Some flexColumnParent) ''left'' = Some (Lit ''50%'') \<and>
            generateLayoutCSS dividerExample (Some flexColumnParent) ''transform'' = Some (Lit ''translateX(-50%)'')"
    by (simp add: generateLayoutCSS_def applyStrategy_def e1 applyStaticLayout_def applyWidth_def
        applyCentering_def applyHeight_def Let_def)
       (simp add: dividerExample_def flexColumnParent_def parsedWith_def
        layoutOf_def getDefaultLayout_def truthy_def)
  have c2: "generateLayoutCSS hairlineExample (Some flexColumnParent) ''position'' = Some (Lit ''absolute'') \<and>
   generateLayoutCSS hairlineExample (Some flexColumnParent) ''left'' = Some (Px 20) \<and>
   generateLayoutCSS hairlineExample (Some flexColumnParent) ''top'' = Some (Px 100)"
    by (simp add: generateLayoutCSS_def applyStrategy_def e2 applyAbsoluteLayout_def applyWidth_def
        applyCentering_def applyHeight_def Let_def)
       (simp add: hairlineExample_def flexColumnParent_def parsedWith_def orZero_def
        layoutOf_def getDefaultLayout_def truthy_def round2_def mathRound_def toLowerCase_def toLowerChar_def)
  from e1 e2 c1 c2 show ?thesis by simp
qed

subsection \<open>Parsing: a node whose processing throws\<close>

text \<open>
  The equations of \<open>parseNode\<close> by the outcome of the \<^verbatim>\<open>try\<close> block. Logging is not
  part of the model.
\<close>

lemma parseNode_failed:
  "parseFields (components ps) (FigmaNode p kids) = Inl e \<Longrightarrow>
   parseNode (FigmaNode p kids) ps =
     (ParsedTree (minimalNode p) [], ps\<lparr> warnings := warnings ps @ [errorMsg p e] \<rparr>)"
  by simp

lemma parseNode_leaf:
  "parseFields (components ps) (FigmaNode p None) = Inr pn \<Longrightarrow>
   parseNode (FigmaNode p None) ps = (ParsedTree pn [], ps)"
  by simp

lemma parseNode_inner:
  "parseFields (components ps) (FigmaNode p (Some cs)) = Inr pn \<Longrightarrow>
   parseNode (FigmaNode p (Some cs)) ps =
     (ParsedTree pn (fst (parseChildren cs ps)), snd (parseChildren cs ps))"
  by (simp split: prod.splits)

lemma parseChildren_Cons:
  "parseChildren (c # cs) ps =
     (fst (parseNode c ps) # fst (parseChildren cs (snd (parseNode c ps))),
      snd (parseChildren cs (snd (parseNode c ps))))"
  by (simp split: prod.splits)

text \<open>
  Parsing never changes the table of components, and the tree it returns does not depend
  on the warnings collected so far: the children of a node are parsed one by one, each as
  it would be alone.
\<close>

lemma children_components:
  "(\<And>c ps. c \<in> set cs \<Longrightarrow> components (snd (parseNode c ps)) = components ps) \<Longrightarrow>
   components (snd (parseChildren cs ps)) = components ps"
proof (induction cs arbitrary: ps)
  case Nil
  show ?case by simp
next
  case (Cons c cs)
  have "components (snd (parseChildren cs (snd (parseNode c ps)))) = components (snd (parseNode c ps))"
  proof (rule Cons.IH)
    fix d and qs :: Parser
    assume "d \<in> set cs"
    then have "d \<in> set (c # cs)" by simp
    from Cons.prems[OF this] show "components (snd (parseNode d qs)) = components qs" .
  qed
  also have "\<dots> = components ps" by (rule Cons.prems) simp
  finally show ?case by (simp only: parseChildren_Cons snd_conv)
qed

lemma parseNode_components: "components (snd (parseNode n ps)) = components ps"
proof (induction n arbitrary: ps)
  case (FigmaNode p kids)
  show ?case
  proof (cases "parseFields (components ps) (FigmaNode p kids)")
    case (Inl e)
    then show ?thesis by (simp only: parseNode_failed) simp
  next
    case (Inr pn)
    show ?thesis
    proof (cases kids)
      case None
      with Inr show ?thesis by (simp only: parseNode_leaf) simp
    next
      case (Some cs)
      have "components (snd (parseChildren cs ps)) = components ps"
      proof (rule children_components)
        fix c and qs :: Parser
        assume c: "c \<in> set cs"
        have "cs \<in> set_option kids" using Some by simp
        from FigmaNode.IH[OF this c] show "components (snd (parseNode c qs)) = components qs" .
      qed
      with Inr Some show ?thesis by (simp only: parseNode_inner) simp
    qed
  qed
qed

lemma parseChildren_components: "components (snd (parseChildren cs ps)) = components ps"
  by (rule children_components) (rule parseNode_components)

lemma children_indep:
  assumes "\<And>c ps ps'. c \<in> set cs \<Longrightarrow> components ps = components ps'
             \<Longrightarrow> fst (parseNode c ps) = fst (parseNode c ps')"
  shows "components ps = components ps' \<Longrightarrow> fst (parseChildren cs ps) = fst (parseChildren cs ps')"
  using assms
proof (induction cs arbitrary: ps ps')
  case Nil
  show ?case by simp
next
  case (Cons c cs)
  have h: "fst (parseNode c ps) = fst (parseNode c ps')"
    by (rule Cons.prems(2)[OF _ Cons.prems(1)]) simp
  have e: "components (snd (parseNode c ps)) = components (snd (parseNode c ps'))"
    using Cons.prems(1) by (simp add: parseNode_components)
  have t: "fst (parseChildren cs (snd (parseNode c ps))) = fst (parseChildren cs (snd (parseNode c ps')))"
  proof (rule Cons.IH[OF e])
    fix d and qs qs' :: Parser
    assume "d \<in> set cs" and q: "components qs = components qs'"
    then have "d \<in> set (c # cs)" by simp
    from Cons.prems(2)[OF this q] show "fst (parseNode d qs) = fst (parseNode d qs')" .
  qed
  show ?case by (simp only: parseChildren_Cons fst_conv h t)
qed

lemma parseNode_indep:
  "components ps = components ps' \<Longrightarrow> fst (parseNode n ps) = fst (parseNode n ps')"
proof (induction n arbitrary: ps ps')
  case (FigmaNode p kids)
  note eq = FigmaNode.prems
  show ?case
  proof (cases "parseFields (components ps) (FigmaNode p kids)")
    case (Inl e)
    with eq have "parseFields (components ps') (FigmaNode p kids) = Inl e" by simp
    with Inl show ?thesis by (simp only: parseNode_failed fst_conv)
  next
    case (Inr pn)
    with eq have Inr': "parseFields (components ps') (FigmaNode p kids) = Inr pn" by simp
    show ?thesis
    proof (cases kids)
      case None
      with Inr Inr' show ?thesis by (simp only: parseNode_leaf fst_conv)
    next
      case (Some cs)
      have "fst (parseChildren cs ps) = fst (parseChildren cs ps')"
      proof (rule children_indep[OF _ eq])
        fix c and qs qs' :: Parser
        assume c: "c \<in> set cs" and q: "components qs = components qs'"
        have "cs \<in> set_option kids" using Some by simp
        from FigmaNode.IH[OF this c q]
        show "fst (parseNode c qs) = fst (parseNode c qs')" .
      qed
      with Inr Inr' Some show ?thesis by (simp only: parseNode_inner fst_conv)
    qed
  qed
qed

lemma parseChildren_map:
  "fst (parseChildren cs ps) = map (\<lambda>c. fst (parseNode c ps)) cs"
proof (induction cs arbitrary: ps)
  case Nil
  show ?case by simp
next
  case (Cons c cs)
  have "map (\<lambda>d. fst (parseNode d (snd (parseNode c ps)))) cs = map (\<lambda>d. fst (parseNode d ps)) cs"
  proof (rule map_cong[OF refl])
    fix d
    show "fst (parseNode d (snd (parseNode c ps))) = fst (parseNode d ps)"
      by (rule parseNode_indep) (rule parseNode_components)
  qed
  with Cons[of "snd (parseNode c ps)"] show ?case
    by (simp only: parseChildren_Cons fst_conv list.map)
qed

text \<open>Warnings are only ever appended.\<close>

lemma children_warnings:
  "(\<And>c ps. c \<in> set cs \<Longrightarrow> \<exists>ws. warnings (snd (parseNode c ps)) = warnings ps @ ws) \<Longrightarrow>
   \<exists>ws. warnings (snd (parseChildren cs ps)) = warnings ps @ ws"
proof (induction cs arbitrary: ps)
  case Nil
  show ?case by simp
next
  case (Cons c cs)
  from Cons.prems obtain w1 where w1: "warnings (snd (parseNode c ps)) = warnings ps @ w1"
    by (meson list.set_intros(1))
  from Cons.IH[of "snd (parseNode c ps)"] Cons.prems
  obtain w2 where "warnings (snd (parseChildren cs (snd (parseNode c ps)))) = warnings (snd (parseNode c ps)) @ w2"
    by (meson list.set_intros(2))
  with w1 have "warnings (snd (parseChildren (c # cs) ps)) = warnings ps @ (w1 @ w2)"
    by (simp only: parseChildren_Cons snd_conv) simp
  then show ?case by blast
qed

lemma parseNode_warnings: "\<exists>ws. warnings (snd (parseNode n ps)) = warnings ps @ ws"
proof (induction n arbitrary: ps)
  case (FigmaNode p kids)
  show ?case
  proof (cases "parseFields (components ps) (FigmaNode p kids)")
    case (Inl e)
    then show ?thesis by (simp only: parseNode_failed) simp
  next
    case (Inr pn)
    show ?thesis
    proof (cases kids)
      case None
      with Inr show ?thesis by (simp only: parseNode_leaf) simp
    next
      case (Some cs)
      have "\<exists>ws. warnings (snd (parseChildren cs ps)) = warnings ps @ ws"
      proof (rule children_warnings)
        fix c and qs :: Parser
        assume c: "c \<in> set cs"
        have "cs \<in> set_option kids" using Some by simp
        from FigmaNode.IH[OF this c]
        show "\<exists>ws. warnings (snd (parseNode c qs)) = warnings qs @ ws" .
      qed
      with Inr Some show ?thesis by (simp only: parseNode_inner snd_conv)
    qed
  qed
qed

lemma parseFields_ok:
  "fn_type p \<noteq> INSTANCE \<Longrightarrow> \<exists>pn. parseFields comps (FigmaNode p kids) = Inr pn"
  by (simp add: parseFields_def Let_def)

lemma parseNode_plain_leaf:
  "fn_type p \<noteq> INSTANCE \<Longrightarrow> snd (parseNode (FigmaNode p None) ps) = ps"
proof -
  assume "fn_type p \<noteq> INSTANCE"
  from parseFields_ok[OF this] obtain pn
    where "parseFields (components ps) (FigmaNode p None) = Inr pn" by blast
  then show ?thesis by (simp only: parseNode_leaf snd_conv)
qed

text \<open>
  Claim C8. If the processing of a node's own fields throws, \<open>parseNode\<close> returns for
  that node a leaf with no children, bounds 0, 0, 0, 0, the Static strategy and the default
  styles, and appends one warning to the parser's list, which \<open>getWarnings\<close> returns.
  \<open>parseNode\<close> has no error result: the \<^verbatim>\<open>catch\<close> block reads \<^verbatim>\<open>id\<close>, \<^verbatim>\<open>name\<close> and
  \<^verbatim>\<open>type\<close> of the node only. A node whose own fields parse has one subtree per child,
  each the result of parsing that child, failed or not; and no warning recorded earlier is
  lost.
\<close>

theorem parseNode_isolates_failure:
  "(parseFields (components ps) (FigmaNode p kids) = Inl e \<longrightarrow>
      parseNode (FigmaNode p kids) ps =
        (ParsedTree (minimalNode p) [], ps\<lparr> warnings := warnings ps @ [errorMsg p e] \<rparr>) \<and>
      pn_bounds (minimalNode p) = \<lparr> bb_x = 0, bb_y = 0, bb_width = 0, bb_height = 0 \<rparr> \<and>
      lp_strategy (pn_layout (minimalNode p)) = Static \<and>
      pn_styles (minimalNode p) = getDefaultStyles \<and>
      getWarnings (snd (parseNode (FigmaNode p kids) ps)) = getWarnings ps @ [errorMsg p e]) \<and>
   (parseFields (components ps) (FigmaNode p (Some cs)) = Inr pn \<longrightarrow>
      fst (parseNode (FigmaNode p (Some cs)) ps) =
        ParsedTree pn (map (\<lambda>c. fst (parseNode c ps)) cs)) \<and>
   (\<exists>ws. getWarnings (snd (parseNode n ps)) = getWarnings ps @ ws)"
proof (intro conjI impI)
  assume f: "parseFields (components ps) (FigmaNode p kids) = Inl e"
  show "parseNode (FigmaNode p kids) ps =
        (ParsedTree (minimalNode p) [], ps\<lparr> warnings := warnings ps @ [errorMsg p e] \<rparr>)"
    by (rule parseNode_failed[OF f])
  show "getWarnings (snd (parseNode (FigmaNode p kids) ps)) = getWarnings ps @ [errorMsg p e]"
    by (simp only: parseNode_failed[OF f] snd_conv) (simp add: getWarnings_def)
next
  show "pn_bounds (minimalNode p) = \<lparr> bb_x = 0, bb_y = 0, bb_width = 0, bb_height = 0 \<rparr>"
    by (simp add: minimalNode_def zeroBounds_def)
  show "lp_strategy (pn_layout (minimalNode p)) = Static"
    by (simp add: minimalNode_def getDefaultLayout_def)
  show "pn_styles (minimalNode p) = getDefaultStyles"
    by (simp add: minimalNode_def)
next
  assume f: "parseFields (components ps) (FigmaNode p (Some cs)) = Inr pn"
  show "fst (parseNode (FigmaNode p (Some cs)) ps) =
        ParsedTree pn (map (\<lambda>c. fst (parseNode c ps)) cs)"
    by (simp only: parseNode_inner[OF f] fst_conv parseChildren_map)
next
  show "\<exists>ws. getWarnings (snd (parseNode n ps)) = getWarnings ps @ ws"
    unfolding getWarnings_def by (rule parseNode_warnings)
qed

text \<open>
  The instance of the nameless component fails inside \<^verbatim>\<open>detectComponentType\<close> and
  becomes the minimal leaf; the frame around it is parsed, keeps its three children, and
  the one warning is recorded.
\<close>

theorem parseNode_failure_example:
  "parseNode brokenInstance freshParser =
     (ParsedTree (minimalNode (props brokenInstance)) [],
      freshParser\<lparr> warnings :=
        [''Error parsing node 7:1 (Badge): TypeError: name.toLowerCase is not a function''] \<rparr>) \<and>
   length (subtrees (fst (parseNode frameWithBroken freshParser))) = 3 \<and>
   subtrees (fst (parseNode frameWithBroken freshParser)) ! 1 =
     ParsedTree (minimalNode (props brokenInstance)) [] \<and>
   pn_name (node (fst (parseNode frameWithBroken freshParser))) = ''Frame'' \<and>
   getWarnings (snd (parseNode frameWithBroken freshParser)) =
     [''Error parsing node 7:1 (Badge): TypeError: name.toLowerCase is not a function'']"
proof -
  define bp where "bp = props brokenInstance"
  define bk where "bk = children brokenInstance"
  have bi: "brokenInstance = FigmaNode bp bk"
    by (simp add: bp_def bk_def)
  have f: "parseFields (components freshParser) (FigmaNode bp bk) =
             Inl (TypeError ''name.toLowerCase is not a function'')"
    unfolding bp_def bk_def
    by (simp add: parseFields_def Let_def brokenInstance_def freshParser_def namelessComponents_def
        emptyProps_def truthyStr_def detectComponentType_def)
  have m: "errorMsg bp (TypeError ''name.toLowerCase is not a function'') =
             ''Error parsing node 7:1 (Badge): TypeError: name.toLowerCase is not a function''"
    by (simp add: bp_def errorMsg_def errorText_def brokenInstance_def emptyProps_def)
  have w0: "warnings freshParser = []" by (simp add: freshParser_def)
  from parseNode_isolates_failure[where ps = freshParser and p = bp and kids = bk] f
  have a: "parseNode brokenInstance freshParser =
             (ParsedTree (minimalNode bp) [],
              freshParser\<lparr> warnings :=
                [''Error parsing node 7:1 (Badge): TypeError: name.toLowerCase is not a function''] \<rparr>)"
    unfolding bi by (simp add: m w0)
  define fp where "fp = emptyProps\<lparr> fn_id := ''7:0'', fn_name := ''Frame'' \<rparr>"
  define kids where "kids = [boxed 0 0 100 50, brokenInstance, boxed 0 120 100 50]"
  have fr: "frameWithBroken = FigmaNode fp (Some kids)"
    by (simp add: frameWithBroken_def fp_def kids_def)
  have "fn_type fp \<noteq> INSTANCE" by (simp add: fp_def emptyProps_def)
  from parseFields_ok[OF this] obtain pn
    where pn: "parseFields (components freshParser) (FigmaNode fp (Some kids)) = Inr pn" by blast
  have nm: "pn_name pn = ''Frame''"
    using pn by (auto simp: parseFields_def Let_def fp_def emptyProps_def split: if_splits)
  from parseNode_isolates_failure[where ps = freshParser and p = fp and cs = kids and pn = pn] pn
  have t: "fst (parseNode frameWithBroken freshParser) =
             ParsedTree pn (map (\<lambda>c. fst (parseNode c freshParser)) kids)"
    unfolding fr by simp
  have l: "length (subtrees (fst (parseNode frameWithBroken freshParser))) = 3"
    unfolding t by (simp add: kids_def)
  have s: "subtrees (fst (parseNode frameWithBroken freshParser)) ! 1 = ParsedTree (minimalNode bp) []"
    unfolding t by (simp add: kids_def a)
  have n: "pn_name (node (fst (parseNode frameWithBroken freshParser))) = ''Frame''"
    unfolding t by (simp add: nm)
  have leaf: "snd (parseNode (boxed x y w h) qs) = qs" for x y w h qs
    unfolding boxed_def by (rule parseNode_plain_leaf) (simp add: emptyProps_def)
  have "snd (parseNode frameWithBroken freshParser) = snd (parseChildren kids freshParser)"
    unfolding fr by (simp only: parseNode_inner[OF pn] snd_conv)
  also have "\<dots> = freshParser\<lparr> warnings :=
        [''Error parsing node 7:1 (Badge): TypeError: name.toLowerCase is not a function''] \<rparr>"
    unfolding kids_def
    by (simp only: parseChildren_Cons leaf a snd_conv parseChildren.simps)
  finally have ws: "getWarnings (snd (parseNode frameWithBroken freshParser)) =
     [''Error parsing node 7:1 (Badge): TypeError: name.toLowerCase is not a function'']"
    by (simp add: getWarnings_def)
  from a l s n ws show ?thesis by (simp add: bp_def)
qed

subsection \<open>Containment resolution\<close>

text \<open>Where no child is contained in a sibling, a level is left as it is.\<close>

lemma foldl_none_contained:
  "(\<And>i. i \<in> set js \<Longrightarrow> firstContainer h cs i = None) \<Longrightarrow>
   foldl (regroupStep cs) (h, acc) js = (h, acc @ map (\<lambda>i. cs ! i) js)"
proof (induction js arbitrary: acc)
  case Nil
  show ?case by simp
next
  case (Cons j js)
  have j: "firstContainer h cs j = None" using Cons.prems by simp
  have "foldl (regroupStep cs) (h, acc) (j # js) = foldl (regroupStep cs) (h, acc @ [cs ! j]) js"
    by (simp add: regroupStep_def j)
  also have "\<dots> = (h, (acc @ [cs ! j]) @ map (\<lambda>i. cs ! i) js)"
    using Cons.prems by (intro Cons.IH) simp
  finally show ?case by simp
qed

lemma regroupLevel_settled:
  assumes "noneContained h (cell_children (h a))"
  shows "regroupLevel h a = h"
proof -
  define cs where "cs = cell_children (h a)"
  have "foldl (regroupStep cs) (h, []) [0..<length cs] = (h, [] @ map (\<lambda>i. cs ! i) [0..<length cs])"
    using assms unfolding cs_def[symmetric] noneContained_def
    by (intro foldl_none_contained) (simp add: list_all_iff)
  then have f: "foldl (regroupStep cs) (h, []) [0..<length cs] = (h, cs)"
    by (simp add: map_nth)
  have "h(a := (h a)\<lparr> cell_children := cs \<rparr>) = h"
    by (simp add: cs_def)
  then show ?thesis
    unfolding regroupLevel_def Let_def cs_def[symmetric] f by simp
qed

lemma regroupChildren_fixed:
  "(\<And>c. c \<in> set cs \<Longrightarrow> regroupByVisualContainment n h c = Some h) \<Longrightarrow>
   regroupChildren n h cs = Some h"
  by (induction cs) simp_all

lemma regroup_settled: "settled n h a \<Longrightarrow> regroupByVisualContainment n h a = Some h"
proof (induction n arbitrary: a)
  case 0
  then show ?case by simp
next
  case (Suc n)
  from Suc.prems have nc: "noneContained h (cell_children (h a))"
    and ch: "\<And>c. c \<in> set (cell_children (h a)) \<Longrightarrow> settled n h c"
    by (simp_all add: list_all_iff)
  have "regroupChildren n h (cell_children (h a)) = Some h"
    by (rule regroupChildren_fixed) (rule Suc.IH, rule ch)
  then show ?case
    by (simp add: regroupLevel_settled[OF nc])
qed

text \<open>
  Claim C1 fails as stated, in both halves. Two bars that contain each other are pushed
  onto each other's children arrays and removed from the root: afterwards each is its own
  ancestor. And in \<open>nestStore\<close> the first run moves the label into the panel, where the
  second run finds it next to the inner panel and moves it again: the tree after two runs
  differs from the tree after one.
\<close>

theorem regroup_counterexample:
  "ownAncestorAfter (regroupByVisualContainment 4 barStore 0) 1 \<and>
   resolvedOnce 4 nestStore 0 \<noteq> None \<and>
   resolvedTwice 4 nestStore 0 \<noteq> None \<and>
   resolvedTwice 4 nestStore 0 \<noteq> resolvedOnce 4 nestStore 0"
proof -
  have c: "childrenAfter (regroupByVisualContainment 4 barStore 0) 1 = Some [2] \<and>
           childrenAfter (regroupByVisualContainment 4 barStore 0) 2 = Some [1]"
    by code_simp
  then obtain h where h: "regroupByVisualContainment 4 barStore 0 = Some h"
    by (cases "regroupByVisualContainment 4 barStore 0") (auto simp: childrenAfter_def)
  from c h have "isChild h 1 2" and "isChild h 2 1"
    by (simp_all add: childrenAfter_def isChild_def)
  then have "isAncestor h 1 1"
    unfolding isAncestor_def by (meson tranclp.r_into_trancl tranclp.trancl_into_trancl)
  with h have a: "ownAncestorAfter (regroupByVisualContainment 4 barStore 0) 1"
    by (simp add: ownAncestorAfter_def)
  have b: "resolvedOnce 4 nestStore 0 \<noteq> None \<and> resolvedTwice 4 nestStore 0 \<noteq> None"
    by code_simp
  have d: "resolvedTwice 4 nestStore 0 \<noteq> resolvedOnce 4 nestStore 0"
    by code_simp
  from a b d show ?thesis by simp
qed

text \<open>
  What the regrouping does to a tree. The region and the tree shape of an address depend
  on the children arrays inside the region only.
\<close>

lemma region_self: "a \<in> region n h a"
  by (cases n) simp_all

lemma region_local:
  "(\<And>x. x \<in> region n h a \<Longrightarrow> cell_children (h' x) = cell_children (h x)) \<Longrightarrow>
   region n h' a = region n h a"
proof (induction n arbitrary: a)
  case 0
  show ?case by simp
next
  case (Suc n)
  have a: "cell_children (h' a) = cell_children (h a)" using Suc.prems[of a] by simp
  have "region n h' c = region n h c" if "c \<in> set (cell_children (h a))" for c
  proof (rule Suc.IH)
    fix x assume "x \<in> region n h c"
    with that have "x \<in> region (Suc n) h a" by auto
    then show "cell_children (h' x) = cell_children (h x)" by (rule Suc.prems)
  qed
  then show ?case by (simp add: a)
qed

lemma isTree_local:
  "(\<And>x. x \<in> region n h a \<Longrightarrow> cell_children (h' x) = cell_children (h x)) \<Longrightarrow>
   isTree n h' a = isTree n h a"
proof (induction n arbitrary: a)
  case 0
  show ?case by simp
next
  case (Suc n)
  have a: "cell_children (h' a) = cell_children (h a)" using Suc.prems[of a] by simp
  have sub: "cell_children (h' x) = cell_children (h x)"
    if "c \<in> set (cell_children (h a))" "x \<in> region n h c" for c x
  proof -
    from that have "x \<in> region (Suc n) h a" by auto
    then show ?thesis by (rule Suc.prems)
  qed
  have r: "region n h' c = region n h c" if "c \<in> set (cell_children (h a))" for c
    by (rule region_local) (rule sub[OF that])
  have t: "isTree n h' c = isTree n h c" if "c \<in> set (cell_children (h a))" for c
    by (rule Suc.IH) (rule sub[OF that])
  show ?case by (simp add: a r t cong: ball_cong)
qed

lemma firstContainer_nodes:
  "sameNodes h h' \<Longrightarrow> firstContainer h' cs i = firstContainer h cs i"
  by (simp add: firstContainer_def sameNodes_def)

lemma calm_local:
  "sameNodes h h' \<Longrightarrow>
   (\<And>x. x \<in> region n h a \<Longrightarrow> cell_children (h' x) = cell_children (h x)) \<Longrightarrow>
   calm n h' a = calm n h a"
proof (induction n arbitrary: a)
  case 0
  show ?case by simp
next
  case (Suc n)
  have a: "cell_children (h' a) = cell_children (h a)" using Suc.prems(2)[of a] by simp
  have t: "calm n h' c = calm n h c" if "c \<in> set (cell_children (h a))" for c
  proof (rule Suc.IH[OF Suc.prems(1)])
    fix x assume "x \<in> region n h c"
    with that have "x \<in> region (Suc n) h a" by auto
    then show "cell_children (h' x) = cell_children (h x)" by (rule Suc.prems(2))
  qed
  have "firstContainer h' cs = firstContainer h cs" for cs
    by (rule ext) (rule firstContainer_nodes[OF Suc.prems(1)])
  then have n: "noLoop h' cs = noLoop h cs" for cs
    by (simp add: noLoop_def)
  show ?case by (simp add: a t n list_all_iff cong: ball_cong)
qed

text \<open>
  The loops of one level in closed form: a child with no container stays, in order; a
  child with a first container is appended to the children array of that sibling.
\<close>

lemma firstContainer_Some:
  "firstContainer h cs i = Some j \<Longrightarrow> j < length cs \<and> j \<noteq> i"
  by (auto simp: firstContainer_def find_Some_iff)

lemma fold_closed:
  assumes "sameNodes h h1"
  shows "\<exists>h2. foldl (regroupStep cs) (h1, acc) js =
           (h2, acc @ map (\<lambda>i. cs ! i) (filter (\<lambda>i. firstContainer h cs i = None) js)) \<and>
         sameNodes h h2 \<and>
         (\<forall>x. cell_children (h2 x) =
                cell_children (h1 x) @
                map (\<lambda>i. cs ! i)
                  (filter (\<lambda>i. \<exists>j. firstContainer h cs i = Some j \<and> cs ! j = x) js))"
  using assms
proof (induction js arbitrary: h1 acc)
  case Nil
  then show ?case by simp
next
  case (Cons i js)
  note sn = Cons.prems
  show ?case
  proof (cases "firstContainer h cs i")
    case None
    then have st: "regroupStep cs (h1, acc) i = (h1, acc @ [cs ! i])"
      by (simp add: regroupStep_def firstContainer_nodes[OF sn])
    from Cons.IH[OF sn, of "acc @ [cs ! i]"] obtain h2 where
      h2: "foldl (regroupStep cs) (h1, acc @ [cs ! i]) js =
           (h2, (acc @ [cs ! i]) @ map (\<lambda>i. cs ! i) (filter (\<lambda>i. firstContainer h cs i = None) js))"
      "sameNodes h h2"
      "\<forall>x. cell_children (h2 x) = cell_children (h1 x) @
                map (\<lambda>i. cs ! i) (filter (\<lambda>i. \<exists>j. firstContainer h cs i = Some j \<and> cs ! j = x) js)"
      by blast
    show ?thesis
      by (rule exI[of _ h2]) (simp add: st h2 None)
  next
    case (Some j)
    define h1' where "h1' = pushChild h1 (cs ! j) (cs ! i)"
    have st: "regroupStep cs (h1, acc) i = (h1', acc)"
      by (simp add: regroupStep_def firstContainer_nodes[OF sn] Some h1'_def)
    have sn': "sameNodes h h1'"
      using sn by (simp add: sameNodes_def h1'_def pushChild_def)
    have ch: "cell_children (h1' x) = cell_children (h1 x) @ (if x = cs ! j then [cs ! i] else [])" for x
      by (simp add: h1'_def pushChild_def)
    from Cons.IH[OF sn', of acc] obtain h2 where
      h2: "foldl (regroupStep cs) (h1', acc) js =
           (h2, acc @ map (\<lambda>i. cs ! i) (filter (\<lambda>i. firstContainer h cs i = None) js))"
      "sameNodes h h2"
      "\<forall>x. cell_children (h2 x) = cell_children (h1' x) @
                map (\<lambda>i. cs ! i) (filter (\<lambda>i. \<exists>j. firstContainer h cs i = Some j \<and> cs ! j = x) js)"
      by blast
    show ?thesis
      by (rule exI[of _ h2]) (auto simp: st h2 Some ch)
  qed
qed

text \<open>The level step in closed form.\<close>

lemma regroupLevel_closed:
  assumes sn: "sameNodes h h1" and cs: "cs = cell_children (h1 a)"
  shows "sameNodes h (regroupLevel h1 a) \<and>
         cell_children (regroupLevel h1 a a) =
           map (\<lambda>i. cs ! i) (filter (\<lambda>i. firstContainer h cs i = None) [0..<length cs]) \<and>
         (\<forall>x. x \<noteq> a \<longrightarrow>
            cell_children (regroupLevel h1 a x) =
              cell_children (h1 x) @
              map (\<lambda>i. cs ! i)
                (filter (\<lambda>i. \<exists>j. firstContainer h cs i = Some j \<and> cs ! j = x) [0..<length cs]))"
proof -
  from fold_closed[OF sn, of cs "[]" "[0..<length cs]"] obtain h2 where
    h2: "foldl (regroupStep cs) (h1, []) [0..<length cs] =
           (h2, map (\<lambda>i. cs ! i) (filter (\<lambda>i. firstContainer h cs i = None) [0..<length cs]))"
      "sameNodes h h2"
      "\<forall>x. cell_children (h2 x) = cell_children (h1 x) @
                map (\<lambda>i. cs ! i) (filter (\<lambda>i. \<exists>j. firstContainer h cs i = Some j \<and> cs ! j = x) [0..<length cs])"
    by auto
  have r: "regroupLevel h1 a =
             h2(a := (h2 a)\<lparr> cell_children :=
                  map (\<lambda>i. cs ! i) (filter (\<lambda>i. firstContainer h cs i = None) [0..<length cs]) \<rparr>)"
    unfolding regroupLevel_def Let_def cs[symmetric] h2(1) by simp
  show ?thesis
    unfolding r using h2(2,3) by (simp add: sameNodes_def)
qed

text \<open>The recursion over the children, one disjoint subtree after the other.\<close>

lemma ranked_local:
  "(\<And>x. x \<in> R \<Longrightarrow> cell_children (h' x) = cell_children (h x)) \<Longrightarrow> ranked R h \<Longrightarrow> ranked R h'"
  by (simp add: ranked_def)

lemma closedIn_local:
  "(\<And>x. x \<in> R \<Longrightarrow> cell_children (h' x) = cell_children (h x)) \<Longrightarrow> closedIn R a h \<Longrightarrow> closedIn R a h'"
  by (simp add: closedIn_def)

lemma sameNodes_trans: "sameNodes h h1 \<Longrightarrow> sameNodes h1 h2 \<Longrightarrow> sameNodes h h2"
  by (simp add: sameNodes_def)

lemma regroupChildren_resolves:
  assumes step: "\<And>h a. isTree n h a \<Longrightarrow> \<exists>h'. resolves n h a h'"
  shows "distinct cs \<Longrightarrow>
         (\<And>c. c \<in> set cs \<Longrightarrow> isTree n h c) \<Longrightarrow>
         (\<And>c d. c \<in> set cs \<Longrightarrow> d \<in> set cs \<Longrightarrow> c \<noteq> d \<Longrightarrow> region n h c \<inter> region n h d = {}) \<Longrightarrow>
         \<exists>h1. regroupChildren n h cs = Some h1 \<and> sameNodes h h1 \<and>
              keptOff (\<Union>c \<in> set cs. region n h c) h h1 \<and>
              (\<forall>c \<in> set cs. closedIn (region n h c) c h1 \<and>
                               (calm n h c \<longrightarrow> ranked (region n h c) h1))"
proof (induction cs arbitrary: h)
  case Nil
  show ?case by (simp add: sameNodes_def keptOff_def)
next
  case (Cons c cs)
  have tc: "isTree n h c" using Cons.prems(2) by simp
  from step[OF tc] obtain h' where r: "resolves n h c h'" by blast
  then have run: "regroupByVisualContainment n h c = Some h'"
    and sn: "sameNodes h h'"
    and ko: "keptOff (region n h c) h h'"
    and cl: "closedIn (region n h c) c h'"
    and rk: "calm n h c \<longrightarrow> ranked (region n h c) h'"
    by (simp_all add: resolves_def)
  have dis: "region n h d \<inter> region n h c = {}" if "d \<in> set cs" for d
  proof -
    from that Cons.prems(1) have "d \<noteq> c" by auto
    with that show ?thesis using Cons.prems(3)[of d c] by simp
  qed
  have same: "cell_children (h' x) = cell_children (h x)" if "d \<in> set cs" "x \<in> region n h d" for d x
  proof -
    from dis[OF that(1)] that(2) have "x \<notin> region n h c" by auto
    with ko show ?thesis by (simp add: keptOff_def)
  qed
  have reg: "region n h' d = region n h d" if "d \<in> set cs" for d
    by (rule region_local) (rule same[OF that])
  have tr: "isTree n h' d" if "d \<in> set cs" for d
  proof -
    have "isTree n h' d = isTree n h d" by (rule isTree_local) (rule same[OF that])
    with Cons.prems(2)[of d] that show ?thesis by simp
  qed
  have cm: "calm n h' d = calm n h d" if "d \<in> set cs" for d
    by (rule calm_local[OF sn]) (rule same[OF that])
  have "\<exists>h1. regroupChildren n h' cs = Some h1 \<and> sameNodes h' h1 \<and>
              keptOff (\<Union>d \<in> set cs. region n h' d) h' h1 \<and>
              (\<forall>d \<in> set cs. closedIn (region n h' d) d h1 \<and>
                               (calm n h' d \<longrightarrow> ranked (region n h' d) h1))"
  proof (rule Cons.IH)
    show "distinct cs" using Cons.prems(1) by simp
    show "isTree n h' d" if "d \<in> set cs" for d by (rule tr[OF that])
    show "region n h' d \<inter> region n h' e = {}" if "d \<in> set cs" "e \<in> set cs" "d \<noteq> e" for d e
      using Cons.prems(3)[of d e] that by (simp add: reg)
  qed
  then obtain h1 where
    run1: "regroupChildren n h' cs = Some h1" and sn1: "sameNodes h' h1"
    and ko1: "keptOff (\<Union>d \<in> set cs. region n h' d) h' h1"
    and rest: "\<forall>d \<in> set cs. closedIn (region n h' d) d h1 \<and>
                               (calm n h' d \<longrightarrow> ranked (region n h' d) h1)"
    by blast
  have U: "(\<Union>d \<in> set cs. region n h' d) = (\<Union>d \<in> set cs. region n h d)"
    using reg by simp
  have headsame: "cell_children (h1 x) = cell_children (h' x)" if "x \<in> region n h c" for x
  proof -
    have "x \<notin> (\<Union>d \<in> set cs. region n h d)" using dis that by auto
    with ko1 U show ?thesis by (simp add: keptOff_def)
  qed
  have a1: "regroupChildren n h (c # cs) = Some h1" using run run1 by simp
  have a2: "sameNodes h h1" by (rule sameNodes_trans[OF sn sn1])
  have a3: "keptOff (\<Union>d \<in> set (c # cs). region n h d) h h1"
    unfolding keptOff_def
  proof (intro allI impI)
    fix x assume x: "x \<notin> (\<Union>d \<in> set (c # cs). region n h d)"
    then have x1: "x \<notin> region n h c" and x2: "x \<notin> (\<Union>d \<in> set cs. region n h' d)"
      unfolding U by auto
    from ko1 x2 have "cell_children (h1 x) = cell_children (h' x)" unfolding keptOff_def by blast
    also from ko x1 have "\<dots> = cell_children (h x)" unfolding keptOff_def by blast
    finally show "cell_children (h1 x) = cell_children (h x)" .
  qed
  have c4: "closedIn (region n h c) c h1"
    using headsame cl unfolding closedIn_def by simp
  have r4: "calm n h c \<longrightarrow> ranked (region n h c) h1"
    using headsame rk unfolding ranked_def by simp
  have a4: "closedIn (region n h c) c h1 \<and> (calm n h c \<longrightarrow> ranked (region n h c) h1)"
    using c4 r4 by (rule conjI)
  have a5: "closedIn (region n h d) d h1 \<and> (calm n h d \<longrightarrow> ranked (region n h d) h1)"
    if "d \<in> set cs" for d
  proof -
    from rest that
    have "closedIn (region n h' d) d h1 \<and> (calm n h' d \<longrightarrow> ranked (region n h' d) h1)"
      by blast
    then show ?thesis unfolding reg[OF that] cm[OF that] .
  qed
  have a6: "\<forall>d \<in> set (c # cs). closedIn (region n h d) d h1 \<and>
                               (calm n h d \<longrightarrow> ranked (region n h d) h1)"
  proof
    fix d assume "d \<in> set (c # cs)"
    then consider "d = c" | "d \<in> set cs" by auto
    then show "closedIn (region n h d) d h1 \<and> (calm n h d \<longrightarrow> ranked (region n h d) h1)"
    proof cases
      case 1
      with a4 show ?thesis by blast
    next
      case 2
      from a5[OF 2] show ?thesis .
    qed
  qed
  show ?case
    by (rule exI[of _ h1]) (intro conjI a1 a2 a3 a6)
qed

text \<open>A link of a chain that ends leads to a child whose chain is shorter.\<close>

lemma chain_mono: "chain k t j = Some d \<Longrightarrow> chain (Suc k) t j = Some d"
proof (induction k arbitrary: j d)
  case 0
  then show ?case by simp
next
  case (Suc k)
  show ?case
  proof (cases "t j")
    case None
    with Suc.prems show ?thesis by simp
  next
    case (Some j')
    with Suc.prems obtain d' where d': "chain k t j' = Some d'" "d = Suc d'" by auto
    from Suc.IH[OF d'(1)] have "chain (Suc k) t j' = Some d'" .
    then have "chain (Suc (Suc k)) t j = Some (Suc d')" using Some by (simp del: chain.simps(2) add: chain.simps(2)[of "Suc k"])
    with d'(2) show ?thesis by simp
  qed
qed

lemma chain_step:
  assumes "chain (Suc k) t i \<noteq> None" and "t i = Some j"
  shows "\<exists>d. chain (Suc k) t i = Some (Suc d) \<and> chain (Suc k) t j = Some d"
proof -
  from assms obtain d where d: "chain k t j = Some d" by auto
  then have "chain (Suc k) t i = Some (Suc d)" using assms(2) by simp
  moreover from chain_mono[OF d] have "chain (Suc k) t j = Some d" .
  ultimately show ?thesis by blast
qed

lemma noLoop_descends:
  assumes nl: "noLoop h cs" and i: "i < length cs" and t: "firstContainer h cs i = Some j"
  shows "the (chain (length cs) (firstContainer h cs) j) < the (chain (length cs) (firstContainer h cs) i)"
proof -
  from i obtain k where k: "length cs = Suc k" by (cases "length cs") auto
  from nl i have "chain (length cs) (firstContainer h cs) i \<noteq> None"
    by (simp add: noLoop_def list_all_iff)
  then have "chain (Suc k) (firstContainer h cs) i \<noteq> None" unfolding k .
  from chain_step[OF this t] obtain d where
    "chain (Suc k) (firstContainer h cs) i = Some (Suc d)"
    "chain (Suc k) (firstContainer h cs) j = Some d" by blast
  then show ?thesis unfolding k by simp
qed

text \<open>
  The rank after one level: a node keeps the rank it has inside its subtree, shifted by the
  length of the chain of the subtree's root times a bound on the ranks of the roots.
\<close>

lemma level_ranked:
  fixes Rg :: "addr \<Rightarrow> addr set"
  assumes dc: "distinct cs"
    and self: "\<And>c. c \<in> set cs \<Longrightarrow> c \<in> Rg c"
    and disj: "\<And>c d. c \<in> set cs \<Longrightarrow> d \<in> set cs \<Longrightarrow> c \<noteq> d \<Longrightarrow> Rg c \<inter> Rg d = {}"
    and anot: "\<And>c. c \<in> set cs \<Longrightarrow> a \<notin> Rg c"
    and closed: "\<And>c. c \<in> set cs \<Longrightarrow> closedIn (Rg c) c hm"
    and rk: "\<And>c. c \<in> set cs \<Longrightarrow> ranked (Rg c) hm"
    and nl: "noLoop h cs"
    and roota: "set (cell_children (h' a)) \<subseteq> set cs"
    and other: "\<And>x y. x \<noteq> a \<Longrightarrow> y \<in> set (cell_children (h' x)) \<Longrightarrow>
                  y \<in> set (cell_children (hm x)) \<or>
                  (\<exists>i j. i < length cs \<and> firstContainer h cs i = Some j \<and> cs ! j = x \<and> y = cs ! i)"
  shows "ranked (insert a (\<Union>c \<in> set cs. Rg c)) h'"
proof -
  have "\<forall>c \<in> set cs. \<exists>f :: addr \<Rightarrow> nat. \<forall>x \<in> Rg c. \<forall>y \<in> set (cell_children (hm x)). f x < f y"
    using rk by (simp add: ranked_def)
  from bchoice[OF this] obtain F :: "addr \<Rightarrow> addr \<Rightarrow> nat" where
    F: "\<forall>c \<in> set cs. \<forall>x \<in> Rg c. \<forall>y \<in> set (cell_children (hm x)). F c x < F c y"
    by blast
  define D where "D i = the (chain (length cs) (firstContainer h cs) i)" for i
  define M where "M = Suc (Max ((\<lambda>c. F c c) ` set cs))"
  define owner where "owner x = (THE c. c \<in> set cs \<and> x \<in> Rg c)" for x
  define pos where "pos c = (THE i. i < length cs \<and> cs ! i = c)" for c
  define rank where "rank x = (if x = a then 0 else Suc (D (pos (owner x)) * M + F (owner x) x))" for x
  have owner_eq: "owner x = c" if "c \<in> set cs" "x \<in> Rg c" for x c
    unfolding owner_def
  proof (rule the_equality)
    show "c \<in> set cs \<and> x \<in> Rg c" using that by simp
  next
    fix d assume d: "d \<in> set cs \<and> x \<in> Rg d"
    show "d = c"
    proof (rule ccontr)
      assume "d \<noteq> c"
      with disj[of d c] d that(1) have "Rg d \<inter> Rg c = {}" by simp
      with d that(2) show False by auto
    qed
  qed
  have pos_eq: "pos (cs ! i) = i" if "i < length cs" for i
    unfolding pos_def
  proof (rule the_equality)
    show "i < length cs \<and> cs ! i = cs ! i" using that by simp
  next
    fix k assume "k < length cs \<and> cs ! k = cs ! i"
    with that show "k = i" using nth_eq_iff_index_eq[OF dc] by blast
  qed
  have Mb: "F c c < M" if "c \<in> set cs" for c
  proof -
    have "F c c \<le> Max ((\<lambda>c. F c c) ` set cs)"
      by (rule Max_ge) (use that in auto)
    then show ?thesis by (simp add: M_def)
  qed
  have root_rank: "rank (cs ! i) = Suc (D i * M + F (cs ! i) (cs ! i))" if "i < length cs" for i
  proof -
    have m: "cs ! i \<in> set cs" using that by simp
    have "cs ! i \<noteq> a" using anot[OF m] self[OF m] by auto
    moreover have "owner (cs ! i) = cs ! i" by (rule owner_eq[OF m self[OF m]])
    ultimately show ?thesis by (simp add: rank_def pos_eq[OF that])
  qed
  have "\<forall>x \<in> insert a (\<Union>c \<in> set cs. Rg c). \<forall>y \<in> set (cell_children (h' x)). rank x < rank y"
  proof (intro ballI)
    fix x y
    assume x: "x \<in> insert a (\<Union>c \<in> set cs. Rg c)" and y: "y \<in> set (cell_children (h' x))"
    show "rank x < rank y"
    proof (cases "x = a")
      case True
      with y roota have "y \<in> set cs" by auto
      then obtain i where i: "i < length cs" "y = cs ! i" by (auto simp: in_set_conv_nth)
      show ?thesis using True root_rank[OF i(1)] i(2) by (simp add: rank_def)
    next
      case False
      with x obtain c where c: "c \<in> set cs" "x \<in> Rg c" by auto
      from other[OF False y] show ?thesis
      proof
        assume old: "y \<in> set (cell_children (hm x))"
        from closed[OF c(1)] c(2) old have yin: "y \<in> Rg c" by (auto simp: closedIn_def)
        with anot[OF c(1)] have ya: "y \<noteq> a" by auto
        from F c old have "F c x < F c y" by blast
        then show ?thesis
          using False ya owner_eq[OF c] owner_eq[OF c(1) yin] by (simp add: rank_def)
      next
        assume "\<exists>i j. i < length cs \<and> firstContainer h cs i = Some j \<and> cs ! j = x \<and> y = cs ! i"
        then obtain i j where ij: "i < length cs" "firstContainer h cs i = Some j" "cs ! j = x" "y = cs ! i"
          by blast
        from firstContainer_Some[OF ij(2)] have j: "j < length cs" by simp
        have dlt: "D j < D i" unfolding D_def by (rule noLoop_descends[OF nl ij(1) ij(2)])
        have "cs ! j \<in> set cs" using j by simp
        from Mb[OF this] have "D j * M + F (cs ! j) (cs ! j) < D j * M + M" by simp
        also have "\<dots> = Suc (D j) * M" by simp
        also have "\<dots> \<le> D i * M" using dlt by (intro mult_le_mono1) simp
        also have "\<dots> \<le> D i * M + F (cs ! i) (cs ! i)" by simp
        finally show ?thesis
          using root_rank[OF j] root_rank[OF ij(1)] ij(3,4) by simp
      qed
    qed
  qed
  then show ?thesis unfolding ranked_def by blast
qed

lemma resolves_tree: "isTree n h a \<Longrightarrow> \<exists>h'. resolves n h a h'"
proof (induction n arbitrary: h a)
  case 0
  then show ?case by simp
next
  case (Suc n)
  define cs where "cs = cell_children (h a)"
  from Suc.prems have dc: "distinct cs"
    and trees: "\<And>c. c \<in> set cs \<Longrightarrow> isTree n h c"
    and anot: "\<And>c. c \<in> set cs \<Longrightarrow> a \<notin> region n h c"
    and disj: "\<And>c d. c \<in> set cs \<Longrightarrow> d \<in> set cs \<Longrightarrow> c \<noteq> d \<Longrightarrow> region n h c \<inter> region n h d = {}"
    by (simp_all add: cs_def)
  have R: "region (Suc n) h a = insert a (\<Union>c \<in> set cs. region n h c)"
    by (simp add: cs_def)
  show ?case
  proof (cases "cs = []")
    case True
    have run: "regroupByVisualContainment (Suc n) h a = Some h"
      using True by (simp add: cs_def)
    have "closedIn (region (Suc n) h a) a h"
      using True unfolding R closedIn_def by (simp add: cs_def)
    moreover have "ranked (region (Suc n) h a) h"
      using True unfolding R ranked_def by (simp add: cs_def)
    ultimately have "resolves (Suc n) h a h"
      using run by (simp add: resolves_def sameNodes_def keptOff_def)
    then show ?thesis by blast
  next
    case False
    have "\<exists>h1. regroupChildren n h cs = Some h1 \<and> sameNodes h h1 \<and>
              keptOff (\<Union>c \<in> set cs. region n h c) h h1 \<and>
              (\<forall>c \<in> set cs. closedIn (region n h c) c h1 \<and>
                               (calm n h c \<longrightarrow> ranked (region n h c) h1))"
      by (rule regroupChildren_resolves[OF Suc.IH dc trees disj])
    then obtain h1 where run1: "regroupChildren n h cs = Some h1"
      and sn1: "sameNodes h h1"
      and ko1: "keptOff (\<Union>c \<in> set cs. region n h c) h h1"
      and cl1: "\<And>c. c \<in> set cs \<Longrightarrow> closedIn (region n h c) c h1"
      and rk1: "\<And>c. c \<in> set cs \<Longrightarrow> calm n h c \<Longrightarrow> ranked (region n h c) h1"
      by blast
    have "a \<notin> (\<Union>c \<in> set cs. region n h c)" using anot by auto
    with ko1 have cs1: "cs = cell_children (h1 a)" by (simp add: keptOff_def cs_def)
    define h' where "h' = regroupLevel h1 a"
    have run: "regroupByVisualContainment (Suc n) h a = Some h'"
      using False run1 by (simp add: cs_def[symmetric] h'_def)
    from regroupLevel_closed[OF sn1 cs1] have sn: "sameNodes h h'"
      and ha: "cell_children (h' a) =
                 map (\<lambda>i. cs ! i) (filter (\<lambda>i. firstContainer h cs i = None) [0..<length cs])"
      and hx: "\<And>x. x \<noteq> a \<Longrightarrow> cell_children (h' x) =
                 cell_children (h1 x) @
                 map (\<lambda>i. cs ! i)
                   (filter (\<lambda>i. \<exists>j. firstContainer h cs i = Some j \<and> cs ! j = x) [0..<length cs])"
      by (simp_all add: h'_def)
    have E1: "set (cell_children (h' a)) \<subseteq> set cs"
      unfolding ha by auto
    have E2: "y \<in> set (cell_children (h1 x)) \<or>
              (\<exists>i j. i < length cs \<and> firstContainer h cs i = Some j \<and> cs ! j = x \<and> y = cs ! i)"
      if "x \<noteq> a" "y \<in> set (cell_children (h' x))" for x y
      using that(2) unfolding hx[OF that(1)] by auto
    have inR: "c \<in> region n h c" for c by (rule region_self)
    have a3: "keptOff (region (Suc n) h a) h h'"
      unfolding keptOff_def
    proof (intro allI impI)
      fix x assume "x \<notin> region (Suc n) h a"
      then have xa: "x \<noteq> a" and xr: "x \<notin> (\<Union>c \<in> set cs. region n h c)"
        unfolding R by auto
      have "filter (\<lambda>i. \<exists>j. firstContainer h cs i = Some j \<and> cs ! j = x) [0..<length cs] = []"
      proof (rule ccontr)
        assume "filter (\<lambda>i. \<exists>j. firstContainer h cs i = Some j \<and> cs ! j = x) [0..<length cs] \<noteq> []"
        then obtain i j where "firstContainer h cs i = Some j" "cs ! j = x"
          by (auto simp: filter_empty_conv)
        with firstContainer_Some[of h cs i j] have "x \<in> set cs" by auto
        with inR[of x] xr show False by auto
      qed
      then have "cell_children (h' x) = cell_children (h1 x)"
        by (simp add: hx[OF xa])
      also have "\<dots> = cell_children (h x)" using ko1 xr by (simp add: keptOff_def)
      finally show "cell_children (h' x) = cell_children (h x)" .
    qed
    have a4: "closedIn (region (Suc n) h a) a h'"
      unfolding closedIn_def
    proof (intro ballI subsetI)
      fix x y
      assume x: "x \<in> region (Suc n) h a" and y: "y \<in> set (cell_children (h' x))"
      have root: "z \<in> region (Suc n) h a - {a}" if "z \<in> set cs" for z
        using that inR[of z] anot[OF that] unfolding R by auto
      show "y \<in> region (Suc n) h a - {a}"
      proof (cases "x = a")
        case True
        with y E1 have "y \<in> set cs" by auto
        then show ?thesis by (rule root)
      next
        case xa: False
        with x obtain c where c: "c \<in> set cs" "x \<in> region n h c" unfolding R by auto
        from E2[OF xa y] show ?thesis
        proof
          assume "y \<in> set (cell_children (h1 x))"
          with cl1[OF c(1)] c(2) have "y \<in> region n h c" by (auto simp: closedIn_def)
          with c(1) anot[OF c(1)] show ?thesis unfolding R by auto
        next
          assume "\<exists>i j. i < length cs \<and> firstContainer h cs i = Some j \<and> cs ! j = x \<and> y = cs ! i"
          then have "y \<in> set cs" by auto
          then show ?thesis by (rule root)
        qed
      qed
    qed
    have a5: "ranked (region (Suc n) h a) h'" if cm: "calm (Suc n) h a"
    proof -
      from cm have nl: "noLoop h cs" and cc: "\<And>c. c \<in> set cs \<Longrightarrow> calm n h c"
        by (simp_all add: cs_def list_all_iff)
      show ?thesis
        unfolding R
      proof (rule level_ranked[where h = h and hm = h1])
        show "distinct cs" by (rule dc)
        show "c \<in> region n h c" for c by (rule inR)
        show "region n h c \<inter> region n h d = {}" if "c \<in> set cs" "d \<in> set cs" "c \<noteq> d" for c d
          by (rule disj[OF that])
        show "a \<notin> region n h c" if "c \<in> set cs" for c by (rule anot[OF that])
        show "closedIn (region n h c) c h1" if "c \<in> set cs" for c by (rule cl1[OF that])
        show "ranked (region n h c) h1" if "c \<in> set cs" for c by (rule rk1[OF that cc[OF that]])
        show "noLoop h cs" by (rule nl)
        show "set (cell_children (h' a)) \<subseteq> set cs" by (rule E1)
        show "y \<in> set (cell_children (h1 x)) \<or>
              (\<exists>i j. i < length cs \<and> firstContainer h cs i = Some j \<and> cs ! j = x \<and> y = cs ! i)"
          if "x \<noteq> a" "y \<in> set (cell_children (h' x))" for x y
          by (rule E2[OF that])
      qed
    qed
    have "resolves (Suc n) h a h'"
      unfolding resolves_def using run sn a3 a4 a5 by blast
    then show ?thesis by blast
  qed
qed

text \<open>Where a rank grows along every child link, no node is its own ancestor.\<close>

lemma ranked_no_cycle:
  assumes rk: "ranked R h" and cl: "closedIn R a h" and x: "x \<in> R"
  shows "\<not> isAncestor h x x"
proof
  from rk obtain f :: "addr \<Rightarrow> nat" where
    f: "\<And>p c. p \<in> R \<Longrightarrow> c \<in> set (cell_children (h p)) \<Longrightarrow> f p < f c"
    unfolding ranked_def by blast
  have up: "y \<in> R \<and> f x < f y" if "tranclp (isChild h) x y" for y
    using that
  proof (induction rule: tranclp_induct)
    case (base y)
    then have c: "y \<in> set (cell_children (h x))" by (simp add: isChild_def)
    with cl x have "y \<in> R" by (auto simp: closedIn_def)
    with f[OF x c] show ?case by simp
  next
    case (step y z)
    then have yr: "y \<in> R" and lt: "f x < f y" by simp_all
    from step.hyps(2) have c: "z \<in> set (cell_children (h y))" by (simp add: isChild_def)
    with cl yr have "z \<in> R" by (auto simp: closedIn_def)
    with f[OF yr c] lt show ?case by simp
  qed
  assume "isAncestor h x x"
  then have "tranclp (isChild h) x x" by (simp add: isAncestor_def)
  from up[OF this] have "f x < f x" by simp
  then show False by simp
qed

text \<open>
  Claim C1, amended. On every tree the regrouping returns; it changes no node and no
  children array outside the tree. If, at every node of the tree, the chain from each child
  to the first sibling that contains it, and on from that sibling, ends at a child that no
  sibling contains, then afterwards no node of the tree is an ancestor of itself. On a tree
  in which no node is visually contained in one of its siblings the regrouping leaves the
  store as it is, so a second run yields the same tree. Idempotence beyond such trees is
  not claimed.
\<close>

theorem regroup_on_trees:
  "(isTree n h a \<longrightarrow>
      (\<exists>h'. regroupByVisualContainment n h a = Some h' \<and>
            (\<forall>x. cell_node (h' x) = cell_node (h x)) \<and>
            (\<forall>x. x \<notin> region n h a \<longrightarrow> cell_children (h' x) = cell_children (h x)) \<and>
            (calm n h a \<longrightarrow> (\<forall>x \<in> region n h a. \<not> isAncestor h' x x)))) \<and>
   (settled n h a \<longrightarrow>
      regroupByVisualContainment n h a = Some h \<and> regroupTwice n h a = Some h)"
proof (intro conjI impI)
  assume "isTree n h a"
  from resolves_tree[OF this] obtain h' where r: "resolves n h a h'" by blast
  then have run: "regroupByVisualContainment n h a = Some h'"
    and sn: "sameNodes h h'"
    and ko: "keptOff (region n h a) h h'"
    and cl: "closedIn (region n h a) a h'"
    and rk: "calm n h a \<longrightarrow> ranked (region n h a) h'"
    by (simp_all add: resolves_def)
  have "calm n h a \<longrightarrow> (\<forall>x \<in> region n h a. \<not> isAncestor h' x x)"
  proof (intro impI ballI)
    fix x assume "calm n h a" and x: "x \<in> region n h a"
    with rk have "ranked (region n h a) h'" by simp
    from ranked_no_cycle[OF this cl x] show "\<not> isAncestor h' x x" .
  qed
  with run sn ko
  show "\<exists>h'. regroupByVisualContainment n h a = Some h' \<and>
            (\<forall>x. cell_node (h' x) = cell_node (h x)) \<and>
            (\<forall>x. x \<notin> region n h a \<longrightarrow> cell_children (h' x) = cell_children (h x)) \<and>
            (calm n h a \<longrightarrow> (\<forall>x \<in> region n h a. \<not> isAncestor h' x x))"
    unfolding sameNodes_def keptOff_def by blast
next
  assume s: "settled n h a"
  from regroup_settled[OF s] show "regroupByVisualContainment n h a = Some h" .
  from regroup_settled[OF s] show "regroupTwice n h a = Some h" by (simp add: regroupTwice_def)
qed

text \<open>
  \<open>nestStore\<close> is a tree without loops: the regrouping returns and the label is not its
  own ancestor afterwards. The tree that two runs make of it is \<open>chainStore\<close>, which is
  settled and which a further run keeps.
\<close>

theorem regroup_on_trees_example:
  "isTree 4 nestStore 0 \<and> calm 4 nestStore 0 \<and>
   regroupByVisualContainment 4 nestStore 0 \<noteq> None \<and>
   \<not> ownAncestorAfter (regroupByVisualContainment 4 nestStore 0) 3 \<and>
   settled 4 chainStore 0 \<and> regroupByVisualContainment 4 chainStore 0 = Some chainStore \<and>
   resolvedTwice 4 nestStore 0 = snapshot 4 chainStore 0"
proof -
  have t: "isTree 4 nestStore 0" by code_simp
  have c: "calm 4 nestStore 0" by code_simp
  have m: "3 \<in> region 4 nestStore 0" by code_simp
  from regroup_on_trees[of 4 nestStore 0] t c obtain h' where
    run: "regroupByVisualContainment 4 nestStore 0 = Some h'"
    and ac: "\<forall>x \<in> region 4 nestStore 0. \<not> isAncestor h' x x"
    by blast
  from ac m have "\<not> isAncestor h' 3 3" by blast
  with run have a: "\<not> ownAncestorAfter (regroupByVisualContainment 4 nestStore 0) 3"
    by (simp add: ownAncestorAfter_def)
  have s: "settled 4 chainStore 0" by code_simp
  have tw: "resolvedTwice 4 nestStore 0 = snapshot 4 chainStore 0" by code_simp
  from regroup_on_trees[of 4 chainStore 0] s
  have f: "regroupByVisualContainment 4 chainStore 0 = Some chainStore" by blast
  from t c run a s f tw show ?thesis by simp
qed

end
